theory Spec2Isabelle
  imports Complex_Main "HOL-Library.Monad_Syntax"
begin

section \<open>Python values used by the plotter\<close>

text \<open>
  Python exceptions that the modelled functions can raise are values of \<open>py_error\<close>;
  a function that can raise returns \<open>py_error + 'a\<close>, with \<open>Inl\<close> for the exception.
\<close>

datatype py_error = ZeroDivisionError | IndexError | ValueError

section \<open>Configuration constants\<close>

definition MAX_POINTS :: nat where
  "MAX_POINTS = 250000"

definition DRAW_MAX_POINTS :: int where
  "DRAW_MAX_POINTS = 2500"

section \<open>Downsampling for drawing\<close>

text \<open>
  The extended slice \<^verbatim>\<open>xs[::stride]\<close> for a positive stride: the elements at the
  indices \<open>0, stride, 2 * stride, ...\<close>.
\<close>

function slice_step :: "nat \<Rightarrow> 'a list \<Rightarrow> 'a list" where
  "slice_step stride [] = []"
| "slice_step stride (x # xs) = x # slice_step stride (drop (stride - 1) xs)"
  by pat_completeness auto
termination
  by (relation "measure (\<lambda>(stride, xs). length xs)") auto

text \<open>
  \<^verbatim>\<open>
  def downsample_xy(xs, ys, max_points):
      n = len(xs)
      if n <= max_points:
          return xs, ys
      stride = max(1, n // max_points)
      return xs[::stride], ys[::stride]
  \<close>
  \<open>n // max_points\<close> is floor division, which is \<open>div\<close> on \<open>int\<close>; it raises for
  \<open>max_points = 0\<close>.
\<close>

definition downsample_xy :: "'a list \<Rightarrow> 'b list \<Rightarrow> int \<Rightarrow> py_error + ('a list \<times> 'b list)" where
  "downsample_xy xs ys max_points =
     (let n = int (length xs) in
      if n \<le> max_points then Inr (xs, ys)
      else if max_points = 0 then Inl ZeroDivisionError
      else let stride = max 1 (n div max_points)
           in Inr (slice_step (nat stride) xs, slice_step (nat stride) ys))"

section \<open>Stream buffers\<close>

text \<open>
  \<open>collections.deque(maxlen=n).append(x)\<close> appends on the right and, when the deque
  is then longer than \<open>maxlen\<close>, drops the leftmost element.
\<close>

definition deque_append :: "nat \<Rightarrow> 'a list \<Rightarrow> 'a \<Rightarrow> 'a list" where
  "deque_append maxlen xs x =
     (let ys = xs @ [x] in if length ys > maxlen then tl ys else ys)"

record 'a StreamBuffers =
  maxlen :: nat
  t1 :: "'a list"
  T1 :: "'a list"
  H1 :: "'a list"
  t2 :: "'a list"
  T2 :: "'a list"
  H2 :: "'a list"

definition StreamBuffers_init :: "nat \<Rightarrow> 'a StreamBuffers" where
  "StreamBuffers_init n =
     \<lparr>maxlen = n, t1 = [], T1 = [], H1 = [], t2 = [], T2 = [], H2 = []\<rparr>"

definition push :: "'a StreamBuffers \<Rightarrow> 'a \<Rightarrow> nat \<Rightarrow> 'a \<Rightarrow> 'a \<Rightarrow> 'a StreamBuffers" where
  "push b t sid temp hum =
     (if sid = 1
      then b\<lparr>t1 := deque_append (maxlen b) (t1 b) t,
             T1 := deque_append (maxlen b) (T1 b) temp,
             H1 := deque_append (maxlen b) (H1 b) hum\<rparr>
      else b\<lparr>t2 := deque_append (maxlen b) (t2 b) t,
             T2 := deque_append (maxlen b) (T2 b) temp,
             H2 := deque_append (maxlen b) (H2 b) hum\<rparr>)"

text \<open>A sequence of pushes, each given as \<open>(t, sid, temp, hum)\<close>, applied in order.\<close>

fun push_all :: "'a StreamBuffers \<Rightarrow> ('a \<times> nat \<times> 'a \<times> 'a) list \<Rightarrow> 'a StreamBuffers" where
  "push_all b [] = b"
| "push_all b ((t, sid, temp, hum) # ops) = push_all (push b t sid temp hum) ops"

section \<open>Timestamp formatting\<close>


definition digit_char :: "nat \<Rightarrow> char" where
  "digit_char d = char_of (48 + d)"

function str_nat :: "nat \<Rightarrow> string" where
  "str_nat n = (if n < 10 then [digit_char n] else str_nat (n div 10) @ [digit_char (n mod 10)])"
  by pat_completeness auto
termination
  by (relation "measure (\<lambda>n. n)") auto



section \<open>Nearest-time lookup\<close>





section \<open>Viewport y-limits\<close>





text \<open>
  \<^verbatim>\<open>
  def _fast_ylim(self, xs, ys, x0, x1):
      if not xs:
          return None
      ys_win = [y for x, y in zip(xs, ys) if x0 <= x <= x1]
      if not ys_win:
          return None
      ymin = min(ys_win); ymax = max(ys_win)
      span = max(MIN_YSPAN, ymax - ymin)
      pad = span * Y_PAD_FRAC
      return (ymin - pad, ymax + pad)
  \<close>
\<close>

definition ys_window :: "real list \<Rightarrow> real list \<Rightarrow> real \<Rightarrow> real \<Rightarrow> real list" where
  "ys_window xs ys x0 x1 = map snd (filter (\<lambda>(x, y). x0 \<le> x \<and> x \<le> x1) (zip xs ys))"


section \<open>Strings\<close>

text \<open>
  A Python \<^verbatim>\<open>str\<close> is modelled as a \<open>string\<close> over the characters with code points
  \<open>0..255\<close>. Code points above \<open>255\<close> (among them the line separators U+2028 and U+2029
  and the non-ASCII decimal digits) are outside the model.
\<close>

definition is_digit :: "char \<Rightarrow> bool" where
  "is_digit c = (let n = (of_char c :: nat) in 48 \<le> n \<and> n \<le> 57)"

definition digit_val :: "char \<Rightarrow> nat" where
  "digit_val c = of_char c - 48"

text \<open>\<^verbatim>\<open>str.isspace\<close> on one character, which is also the class \<^verbatim>\<open>\s\<close> of \<^verbatim>\<open>re\<close>.\<close>

definition py_isspace :: "char \<Rightarrow> bool" where
  "py_isspace c = (let n = (of_char c :: nat) in
     (9 \<le> n \<and> n \<le> 13) \<or> (28 \<le> n \<and> n \<le> 32) \<or> n = 133 \<or> n = 160)"

definition strip :: "string \<Rightarrow> string" where
  "strip s = rev (dropWhile py_isspace (rev (dropWhile py_isspace s)))"

definition lower_char :: "char \<Rightarrow> char" where
  "lower_char c = (let n = (of_char c :: nat) in
     if (65 \<le> n \<and> n \<le> 90) \<or> (192 \<le> n \<and> n \<le> 222 \<and> n \<noteq> 215) then char_of (n + 32) else c)"

definition lower :: "string \<Rightarrow> string" where
  "lower s = map lower_char s"

definition startswith :: "string \<Rightarrow> string \<Rightarrow> bool" where
  "startswith s p = (take (length p) s = p)"

definition endswith :: "string \<Rightarrow> string \<Rightarrow> bool" where
  "endswith s p = (length p \<le> length s \<and> drop (length s - length p) s = p)"

text \<open>\<^verbatim>\<open>p in s\<close> for strings: \<open>p\<close> occurs in \<open>s\<close> as a substring.\<close>

fun contains :: "string \<Rightarrow> string \<Rightarrow> bool" where
  "contains [] p = (p = [])"
| "contains (c # cs) p = (startswith (c # cs) p \<or> contains cs p)"

text \<open>\<^verbatim>\<open>s.split(sep)\<close> for a separator of one character; the result is never empty.\<close>

primrec split :: "char \<Rightarrow> string \<Rightarrow> string list" where
  "split sep [] = [[]]"
| "split sep (c # cs) =
     (if c = sep then [] # split sep cs
      else (case split sep cs of [] \<Rightarrow> [[c]] | p # ps \<Rightarrow> (c # p) # ps))"

text \<open>\<^verbatim>\<open>s.replace(" ", "")\<close>.\<close>

definition remove_spaces :: "string \<Rightarrow> string" where
  "remove_spaces s = filter (\<lambda>c. c \<noteq> CHR '' '') s"

text \<open>
  The line boundaries of \<^verbatim>\<open>str.splitlines\<close> within the modelled characters: LF, VT, FF,
  CR, FS, GS, RS and NEL; CR followed by LF is one boundary.
\<close>

definition is_linebreak :: "char \<Rightarrow> bool" where
  "is_linebreak c = (let n = (of_char c :: nat) in
     (10 \<le> n \<and> n \<le> 13) \<or> (28 \<le> n \<and> n \<le> 30) \<or> n = 133)"

text \<open>\<^verbatim>\<open>s.splitlines(keepends=True)\<close>.\<close>

fun splitlines :: "string \<Rightarrow> string list" where
  "splitlines [] = []"
| "splitlines [c] = [[c]]"
| "splitlines (c # d # cs) =
     (if c = CHR 0x0D \<and> d = CHR 0x0A then [c, d] # splitlines cs
      else if is_linebreak c then [c] # splitlines (d # cs)
      else (case splitlines (d # cs) of [] \<Rightarrow> [[c]] | l # ls \<Rightarrow> (c # l) # ls))"

section \<open>Floats\<close>

text \<open>
  A Python float is a finite number, an infinity or NaN. Finite floats are modelled by
  real numbers, see above, so a literal never overflows to an infinity. Only the
  operations the plotter applies to parsed values are defined: comparison, subtraction
  and \<^verbatim>\<open>abs\<close>, with the IEEE results on infinities and NaN.
\<close>

datatype pyfloat = Fin real | PInf | NInf | NaN

fun pf_le :: "pyfloat \<Rightarrow> pyfloat \<Rightarrow> bool" where
  "pf_le (Fin a) (Fin b) = (a \<le> b)"
| "pf_le NaN _ = False"
| "pf_le _ NaN = False"
| "pf_le NInf _ = True"
| "pf_le _ PInf = True"
| "pf_le _ _ = False"

fun pf_lt :: "pyfloat \<Rightarrow> pyfloat \<Rightarrow> bool" where
  "pf_lt (Fin a) (Fin b) = (a < b)"
| "pf_lt NaN _ = False"
| "pf_lt _ NaN = False"
| "pf_lt PInf _ = False"
| "pf_lt _ NInf = False"
| "pf_lt _ _ = True"

fun pf_sub :: "pyfloat \<Rightarrow> pyfloat \<Rightarrow> pyfloat" where
  "pf_sub (Fin a) (Fin b) = Fin (a - b)"
| "pf_sub NaN _ = NaN"
| "pf_sub _ NaN = NaN"
| "pf_sub PInf PInf = NaN"
| "pf_sub NInf NInf = NaN"
| "pf_sub PInf _ = PInf"
| "pf_sub NInf _ = NInf"
| "pf_sub (Fin a) PInf = NInf"
| "pf_sub (Fin a) NInf = PInf"

fun pf_abs :: "pyfloat \<Rightarrow> pyfloat" where
  "pf_abs (Fin a) = Fin \<bar>a\<bar>"
| "pf_abs PInf = PInf"
| "pf_abs NInf = PInf"
| "pf_abs NaN = NaN"

text \<open>
  \<^verbatim>\<open>float(s)\<close> on a string, \<open>None\<close> for \<^verbatim>\<open>ValueError\<close>. The grammar is
  \<^verbatim>\<open>
    digitpart   ::= digit (["_"] digit)*
    number      ::= [digitpart] "." digitpart | digitpart ["."]
    exponent    ::= ("e" | "E") [sign] digitpart
    floatvalue  ::= [sign] (number [exponent] | "inf" | "infinity" | "nan")
  \<close>
  with surrounding whitespace removed and the three words in any case.
\<close>

fun digitpart_ok :: "string \<Rightarrow> bool" where
  "digitpart_ok [] = False"
| "digitpart_ok [c] = is_digit c"
| "digitpart_ok (c # d # cs) =
     (is_digit c \<and> (if d = CHR ''_'' then digitpart_ok cs else digitpart_ok (d # cs)))"

definition digits_val :: "string \<Rightarrow> nat" where
  "digits_val s = foldl (\<lambda>acc c. 10 * acc + digit_val c) 0 (filter is_digit s)"

definition split_sign :: "string \<Rightarrow> bool \<times> string" where
  "split_sign s =
     (case s of
        [] \<Rightarrow> (False, [])
      | c # cs \<Rightarrow> if c = CHR ''-'' then (True, cs) else if c = CHR ''+'' then (False, cs) else (False, s))"

definition float_mantissa :: "string \<Rightarrow> real option" where
  "float_mantissa s =
     (let ip = takeWhile (\<lambda>c. c \<noteq> CHR ''.'') s;
          r = dropWhile (\<lambda>c. c \<noteq> CHR ''.'') s
      in if r = [] then (if digitpart_ok ip then Some (real (digits_val ip)) else None)
         else let fp = tl r in
              if (ip = [] \<or> digitpart_ok ip) \<and> (fp = [] \<or> digitpart_ok fp) \<and> \<not> (ip = [] \<and> fp = [])
              then Some (real (digits_val ip)
                         + real (digits_val fp) / 10 ^ length (filter is_digit fp))
              else None)"

definition float_exponent :: "string \<Rightarrow> int option" where
  "float_exponent s =
     (let (neg, ds) = split_sign s in
      if digitpart_ok ds then Some (if neg then - int (digits_val ds) else int (digits_val ds))
      else None)"

definition is_e :: "char \<Rightarrow> bool" where
  "is_e c = (c = CHR ''e'' \<or> c = CHR ''E'')"

definition float_number :: "string \<Rightarrow> real option" where
  "float_number s =
     (let ms = takeWhile (\<lambda>c. \<not> is_e c) s;
          r = dropWhile (\<lambda>c. \<not> is_e c) s
      in case float_mantissa ms of
           None \<Rightarrow> None
         | Some m \<Rightarrow>
             if r = [] then Some m
             else (case float_exponent (tl r) of
                     None \<Rightarrow> None
                   | Some e \<Rightarrow> Some (if 0 \<le> e then m * 10 ^ nat e else m / 10 ^ nat (- e))))"

definition py_float :: "string \<Rightarrow> pyfloat option" where
  "py_float s0 =
     (let (neg, body) = split_sign (strip s0); w = lower body in
      if w = ''inf'' \<or> w = ''infinity'' then Some (if neg then NInf else PInf)
      else if w = ''nan'' then Some NaN
      else map_option (\<lambda>x. Fin (if neg then - x else x)) (float_number body))"

section \<open>The free-text line pattern\<close>

text \<open>
  \<^verbatim>\<open>
  LINE_RE = re.compile(
      r"^\s*(?P<pc>\S+)\s+(?P<m>\d+):(?P<s>\d+)\.(?P<ms>\d+)\s*,\s*"
      r"(?P<sensor>Sensor\s*[12])\s*,\s*(?P<temp>-?\d+(?:\.\d+)?)\s*,\s*(?P<rh>-?\d+(?:\.\d+)?)\s*$"
  )
  \<close>
  Each repetition of the pattern is followed by an item that cannot start with a character
  of the repeated class, so the only way to match is to take every run as long as it goes;
  the matcher below scans from left to right accordingly. Each piece returns the rest of
  the input, with the matched text where a group needs it.
\<close>

definition re_ws0 :: "string \<Rightarrow> string" where
  "re_ws0 s = dropWhile py_isspace s"

definition re_ws1 :: "string \<Rightarrow> string option" where
  "re_ws1 s = (if takeWhile py_isspace s = [] then None else Some (dropWhile py_isspace s))"

definition re_nonws1 :: "string \<Rightarrow> (string \<times> string) option" where
  "re_nonws1 s =
     (let g = takeWhile (\<lambda>c. \<not> py_isspace c) s in
      if g = [] then None else Some (g, dropWhile (\<lambda>c. \<not> py_isspace c) s))"

definition re_digits1 :: "string \<Rightarrow> (string \<times> string) option" where
  "re_digits1 s =
     (let g = takeWhile is_digit s in
      if g = [] then None else Some (g, dropWhile is_digit s))"

definition re_lit :: "string \<Rightarrow> string \<Rightarrow> string option" where
  "re_lit p s = (if startswith s p then Some (drop (length p) s) else None)"

text \<open>\<^verbatim>\<open>\s*[12]\<close>, returning the matched text.\<close>

definition re_ws0_12 :: "string \<Rightarrow> (string \<times> string) option" where
  "re_ws0_12 s =
     (let w = takeWhile py_isspace s in
      case dropWhile py_isspace s of
        [] \<Rightarrow> None
      | c # r \<Rightarrow> if c = CHR ''1'' \<or> c = CHR ''2'' then Some (w @ [c], r) else None)"

text \<open>
  \<^verbatim>\<open>-?\d+(?:\.\d+)?\<close> where the pattern goes on with \<^verbatim>\<open>\s*,\<close> or \<^verbatim>\<open>\s*$\<close>: a point
  after the digits must start the fraction, since nothing else in the pattern matches it.
\<close>

definition re_number :: "string \<Rightarrow> (string \<times> string) option" where
  "re_number s =
     (let sg = (if startswith s ''-'' then ''-'' else []);
          r0 = drop (length sg) s;
          ds = takeWhile is_digit r0;
          r1 = dropWhile is_digit r0
      in if ds = [] then None
         else if startswith r1 ''.''
              then (let fs = takeWhile is_digit (tl r1) in
                    if fs = [] then None
                    else Some (sg @ ds @ ''.'' @ fs, dropWhile is_digit (tl r1)))
              else Some (sg @ ds, r1))"

record line_groups =
  g_m :: string
  g_s :: string
  g_ms :: string
  g_sensor :: string
  g_temp :: string
  g_rh :: string

definition LINE_RE_match :: "string \<Rightarrow> line_groups option" where
  "LINE_RE_match s =
     do {
       (pc, r1) \<leftarrow> re_nonws1 (re_ws0 s);
       r2 \<leftarrow> re_ws1 r1;
       (m, r3) \<leftarrow> re_digits1 r2;
       r4 \<leftarrow> re_lit '':'' r3;
       (sec, r5) \<leftarrow> re_digits1 r4;
       r6 \<leftarrow> re_lit ''.'' r5;
       (ms, r7) \<leftarrow> re_digits1 r6;
       r8 \<leftarrow> re_lit '','' (re_ws0 r7);
       r9 \<leftarrow> re_lit ''Sensor'' (re_ws0 r8);
       (sn, r10) \<leftarrow> re_ws0_12 r9;
       r11 \<leftarrow> re_lit '','' (re_ws0 r10);
       (temp, r12) \<leftarrow> re_number (re_ws0 r11);
       r13 \<leftarrow> re_lit '','' (re_ws0 r12);
       (rh, r14) \<leftarrow> re_number (re_ws0 r13);
       if re_ws0 r14 = []
       then Some \<lparr>g_m = m, g_s = sec, g_ms = ms, g_sensor = ''Sensor'' @ sn,
                   g_temp = temp, g_rh = rh\<rparr>
       else None
     }"

text \<open>
  \<^verbatim>\<open>
  def to_seconds(m, s, ms):
      return int(m) * 60.0 + int(s) + int(ms) / 1000.0
  \<close>
  on strings of decimal digits.
\<close>

definition to_seconds :: "string \<Rightarrow> string \<Rightarrow> string \<Rightarrow> pyfloat" where
  "to_seconds m s ms =
     Fin (real (digits_val m) * 60 + real (digits_val s) + real (digits_val ms) / 1000)"

section \<open>The data monitor\<close>

definition TEMP_MIN_C :: real where "TEMP_MIN_C = - 40"
definition TEMP_MAX_C :: real where "TEMP_MAX_C = 125"
definition HUM_MIN_PCT :: real where "HUM_MIN_PCT = 0"
definition HUM_MAX_PCT :: real where "HUM_MAX_PCT = 100"
definition MAX_TEMP_STEP_C :: real where "MAX_TEMP_STEP_C = 5"
definition MAX_HUM_STEP_PCT :: real where "MAX_HUM_STEP_PCT = 20"

text \<open>A parsed sample \<open>(t_abs, sid, temp, hum)\<close>.\<close>

type_synonym sample = "pyfloat \<times> nat \<times> pyfloat \<times> pyfloat"

datatype event = RESET string | ERROR py_error

text \<open>
  The fields of \<open>OverlayItem\<close> and \<open>DataMonitor\<close> that the tailers and the parser use.
  The dictionaries \<open>_last_good_temp\<close> and \<open>_last_good_hum\<close> have the keys \<open>1\<close> and
  \<open>2\<close>, each holding \<open>None\<close> or a float; they are functions from the key. They belong
  to the monitor: an overlay has none of its own.
\<close>

record OverlayItem =
  buffers :: "pyfloat StreamBuffers"
  ov_file_pos :: nat
  ov_carry :: string
  t_start_abs :: "pyfloat option"

record DataMonitor =
  main :: "pyfloat StreamBuffers"
  file_pos :: nat
  queue :: "sample list"
  event_q :: "event list"
  carry :: string
  last_good_temp :: "nat \<Rightarrow> pyfloat option"
  last_good_hum :: "nat \<Rightarrow> pyfloat option"
  main_t_start_abs :: "pyfloat option"

definition OverlayItem_init :: OverlayItem where
  "OverlayItem_init =
     \<lparr>buffers = StreamBuffers_init MAX_POINTS, ov_file_pos = 0, ov_carry = [],
      t_start_abs = None\<rparr>"

definition DataMonitor_init :: DataMonitor where
  "DataMonitor_init =
     \<lparr>main = StreamBuffers_init MAX_POINTS, file_pos = 0, queue = [], event_q = [],
      carry = [], last_good_temp = (\<lambda>sid. None), last_good_hum = (\<lambda>sid. None),
      main_t_start_abs = None\<rparr>"

text \<open>
  \<^verbatim>\<open>
  def _valid_ranges(self, temp, hum):
      return (TEMP_MIN_C <= temp <= TEMP_MAX_C) and (HUM_MIN_PCT <= hum <= HUM_MAX_PCT)
  \<close>
\<close>

definition valid_ranges :: "pyfloat \<Rightarrow> pyfloat \<Rightarrow> bool" where
  "valid_ranges temp hum =
     ((pf_le (Fin TEMP_MIN_C) temp \<and> pf_le temp (Fin TEMP_MAX_C))
      \<and> (pf_le (Fin HUM_MIN_PCT) hum \<and> pf_le hum (Fin HUM_MAX_PCT)))"

text \<open>
  \<^verbatim>\<open>
  def _valid_step(self, sid, temp, hum):
      lt = self._last_good_temp[sid]
      lh = self._last_good_hum[sid]
      if lt is None or lh is None:
          return True
      if MAX_TEMP_STEP_C is not None and abs(temp - lt) > MAX_TEMP_STEP_C:
          return False
      if MAX_HUM_STEP_PCT is not None and abs(hum - lh) > MAX_HUM_STEP_PCT:
          return False
      return True
  \<close>
\<close>

definition valid_step :: "DataMonitor \<Rightarrow> nat \<Rightarrow> pyfloat \<Rightarrow> pyfloat \<Rightarrow> bool" where
  "valid_step self sid temp hum =
     (case (last_good_temp self sid, last_good_hum self sid) of
        (Some lt, Some lh) \<Rightarrow>
          if pf_lt (Fin MAX_TEMP_STEP_C) (pf_abs (pf_sub temp lt)) then False
          else if pf_lt (Fin MAX_HUM_STEP_PCT) (pf_abs (pf_sub hum lh)) then False
          else True
      | _ \<Rightarrow> True)"

text \<open>
  Both branches of the parser end with the same lines:
  \<^verbatim>\<open>
      if not self._valid_ranges(temp, hum):
          return None
      if not self._valid_step(sid, temp, hum):
          return None
      self._last_good_temp[sid] = temp
      self._last_good_hum[sid] = hum
      return (t_abs, sid, temp, hum)
  \<close>
\<close>

definition validate ::
  "DataMonitor \<Rightarrow> pyfloat \<Rightarrow> nat \<Rightarrow> pyfloat \<Rightarrow> pyfloat \<Rightarrow> sample option \<times> DataMonitor" where
  "validate self t_abs sid temp hum =
     (if \<not> valid_ranges temp hum then (None, self)
      else if \<not> valid_step self sid temp hum then (None, self)
      else (Some (t_abs, sid, temp, hum),
            self\<lparr>last_good_temp := (last_good_temp self)(sid := Some temp),
                 last_good_hum := (last_good_hum self)(sid := Some hum)\<rparr>))"

text \<open>\<^verbatim>\<open>1 if txt.replace(" ", "").endswith("1") else 2\<close>.\<close>

definition sensor_id :: "string \<Rightarrow> nat" where
  "sensor_id txt = (if endswith (remove_spaces txt) ''1'' then 1 else 2)"

text \<open>
  The \<^verbatim>\<open>try\<close> block for a line of four or five fields. \<open>None\<close> means that control
  leaves the block without returning (a \<^verbatim>\<open>float\<close> raised and the exception was
  swallowed, or the label does not start with "sensor"), so that the pattern is tried next.
  \<^verbatim>\<open>
      if len(parts) == 5:
          t_abs = float(parts[1]); sensor_txt = parts[2]; temp = float(parts[3]); hum = float(parts[4])
      else:
          t_abs = float(parts[0]); sensor_txt = parts[1]; temp = float(parts[2]); hum = float(parts[3])
      if sensor_txt.lower().startswith("sensor"):
          sid = 1 if sensor_txt.replace(" ", "").endswith("1") else 2
          ...
  \<close>
\<close>

definition delimited_branch ::
  "DataMonitor \<Rightarrow> string list \<Rightarrow> (sample option \<times> DataMonitor) option" where
  "delimited_branch self parts =
     (let k = (if length parts = 5 then 1 else 0);
          sensor_txt = parts ! (k + 1)
      in case py_float (parts ! k) of
           None \<Rightarrow> None
         | Some t_abs \<Rightarrow>
             (case py_float (parts ! (k + 2)) of
                None \<Rightarrow> None
              | Some temp \<Rightarrow>
                  (case py_float (parts ! (k + 3)) of
                     None \<Rightarrow> None
                   | Some hum \<Rightarrow>
                       if startswith (lower sensor_txt) ''sensor''
                       then Some (validate self t_abs (sensor_id sensor_txt) temp hum)
                       else None)))"

text \<open>The part of the parser after the \<^verbatim>\<open>try\<close> block; here a \<^verbatim>\<open>float\<close> that raises is not caught.\<close>

definition pattern_branch ::
  "DataMonitor \<Rightarrow> string \<Rightarrow> py_error + (sample option \<times> DataMonitor)" where
  "pattern_branch self s =
     (case LINE_RE_match s of
        None \<Rightarrow> Inr (None, self)
      | Some m \<Rightarrow>
          (let t_abs = to_seconds (g_m m) (g_s m) (g_ms m);
               sid = sensor_id (g_sensor m)
           in case py_float (g_temp m) of
                None \<Rightarrow> Inl ValueError
              | Some temp \<Rightarrow>
                  (case py_float (g_rh m) of
                     None \<Rightarrow> Inl ValueError
                   | Some hum \<Rightarrow> Inr (validate self t_abs sid temp hum))))"

text \<open>
  \<^verbatim>\<open>
  def parse_log_line_abs_seconds(self, s: str):
      if not s:
          return None
      if "TS,Sensor,TempC,RH" in s:
          return None
      parts = [p.strip() for p in s.split(",")]
      if len(parts) in (4, 5):
          try: ...
          except Exception: pass
      m = LINE_RE.match(s)
      ...
  \<close>
  The result is the returned value and the monitor with its last-good values updated.
\<close>

definition parse_log_line_abs_seconds ::
  "DataMonitor \<Rightarrow> string \<Rightarrow> py_error + (sample option \<times> DataMonitor)" where
  "parse_log_line_abs_seconds self s =
     (if s = [] then Inr (None, self)
      else if contains s ''TS,Sensor,TempC,RH'' then Inr (None, self)
      else let parts = map strip (split (CHR '','') s) in
           if length parts = 4 \<or> length parts = 5
           then (case delimited_branch self parts of
                   Some r \<Rightarrow> Inr r
                 | None \<Rightarrow> pattern_branch self s)
           else pattern_branch self s)"

section \<open>Tailing the files\<close>

text \<open>
  \<^verbatim>\<open>
      lines = chunk.splitlines(keepends=True)
      if lines and (not lines[-1].endswith("\n")) and (not lines[-1].endswith("\r")):
          self._carry = lines.pop(-1)
      else:
          self._carry = ""
  \<close>
  gives the lines to parse and the new carry.
\<close>

definition pop_carry :: "string list \<Rightarrow> string list \<times> string" where
  "pop_carry lines =
     (if lines \<noteq> [] \<and> \<not> endswith (last lines) [CHR 0x0A] \<and> \<not> endswith (last lines) [CHR 0x0D]
      then (butlast lines, last lines)
      else (lines, []))"

text \<open>
  The loop over the lines in \<open>read_loop_main\<close>. An exception of the parser ends the
  loop; it is returned with the monitor as it is then.
  \<^verbatim>\<open>
      for ln in lines:
          parsed = self.parse_log_line_abs_seconds(ln.strip())
          if parsed is not None:
              self.queue.put(parsed)
  \<close>
\<close>

fun main_feed :: "DataMonitor \<Rightarrow> string list \<Rightarrow> DataMonitor \<times> py_error option" where
  "main_feed self [] = (self, None)"
| "main_feed self (l # ls) =
     (case parse_log_line_abs_seconds self (strip l) of
        Inl e \<Rightarrow> (self, Some e)
      | Inr (None, self') \<Rightarrow> main_feed self' ls
      | Inr (Some parsed, self') \<Rightarrow> main_feed (self'\<lparr>queue := queue self' @ [parsed]\<rparr>) ls)"

text \<open>
  One pass of the loop of \<open>read_loop_main\<close> once the file exists. The file is given by
  its content as the text that reading returns, one character per byte: its size is the
  length of the content, and reading from \<open>file_pos\<close> to the end leaves the position at
  the end. \<open>last_size\<close> is the local variable of the loop. Errors of the file system are
  not modelled.
  \<^verbatim>\<open>
      truncated = (size < self.file_pos) or (size < last_size)
      if truncated:
          self.file_pos = 0
          self._carry = ""
          self._last_good_temp = {1: None, 2: None}
          self._last_good_hum = {1: None, 2: None}
          self.main_t_start_abs = None
          self.event_q.put(("RESET", "Main file truncated/cleared"))
      last_size = size
      with open(self.file_path, ...) as f:
          f.seek(self.file_pos)
          chunk = f.read()
          self.file_pos = f.tell()
      if chunk:
          chunk = self._carry + chunk
          ...
  \<close>
\<close>

definition main_truncated :: "DataMonitor \<Rightarrow> DataMonitor" where
  "main_truncated self =
     self\<lparr>file_pos := 0, carry := [],
          last_good_temp := (\<lambda>sid. None), last_good_hum := (\<lambda>sid. None),
          main_t_start_abs := None,
          event_q := event_q self @ [RESET ''Main file truncated/cleared'']\<rparr>"

definition main_chunk :: "DataMonitor \<Rightarrow> string \<Rightarrow> DataMonitor" where
  "main_chunk self chunk0 =
     (let chunk = carry self @ chunk0;
          (lines, c) = pop_carry (splitlines chunk);
          (self', err) = main_feed (self\<lparr>carry := c\<rparr>) lines
      in case err of
           None \<Rightarrow> self'
         | Some e \<Rightarrow> self'\<lparr>event_q := event_q self' @ [ERROR e]\<rparr>)"

definition read_loop_main_step :: "DataMonitor \<Rightarrow> nat \<Rightarrow> string \<Rightarrow> DataMonitor \<times> nat" where
  "read_loop_main_step self0 last_size file =
     (let size = length file;
          truncated = (size < file_pos self0 \<or> size < last_size);
          self1 = (if truncated then main_truncated self0 else self0);
          chunk = drop (file_pos self1) file;
          self2 = self1\<lparr>file_pos := length file\<rparr>
      in (if chunk \<noteq> [] then main_chunk self2 chunk else self2, size))"

text \<open>
  The tailer of a live overlay, the closure \<open>_tail\<close> of \<open>start_live_overlay\<close>. It calls
  the parser of the monitor, so it works on the monitor and on the overlay.
  \<^verbatim>\<open>
      for ln in lines:
          parsed = self.parse_log_line_abs_seconds(ln.strip())
          if parsed is None:
              continue
          t_abs, sid, temp, hum = parsed
          if ov.t_start_abs is None:
              ov.t_start_abs = t_abs
          t_rel = t_abs - ov.t_start_abs
          ov.buffers.push(t_rel, sid, temp, hum)
  \<close>
  An exception ends the pass and is dropped.
\<close>

fun tail_feed :: "DataMonitor \<Rightarrow> OverlayItem \<Rightarrow> string list \<Rightarrow> DataMonitor \<times> OverlayItem" where
  "tail_feed self ov [] = (self, ov)"
| "tail_feed self ov (l # ls) =
     (case parse_log_line_abs_seconds self (strip l) of
        Inl e \<Rightarrow> (self, ov)
      | Inr (None, self') \<Rightarrow> tail_feed self' ov ls
      | Inr (Some (t_abs, sid, temp, hum), self') \<Rightarrow>
          (let anchor = (case t_start_abs ov of None \<Rightarrow> t_abs | Some a \<Rightarrow> a);
               t_rel = pf_sub t_abs anchor
           in tail_feed self'
                (ov\<lparr>t_start_abs := Some anchor,
                    buffers := push (buffers ov) t_rel sid temp hum\<rparr>) ls))"

text \<open>
  \<^verbatim>\<open>
      if size < ov.file_pos or size < last_size:
          ov.file_pos = 0
          ov._carry = ""
          ov.t_start_abs = None
      last_size = size
  \<close>
\<close>

definition tail_truncated :: "OverlayItem \<Rightarrow> OverlayItem" where
  "tail_truncated ov = ov\<lparr>ov_file_pos := 0, ov_carry := [], t_start_abs := None\<rparr>"

definition tail_chunk :: "DataMonitor \<Rightarrow> OverlayItem \<Rightarrow> string \<Rightarrow> DataMonitor \<times> OverlayItem" where
  "tail_chunk self ov chunk0 =
     (let chunk = ov_carry ov @ chunk0;
          (lines, c) = pop_carry (splitlines chunk)
      in tail_feed self (ov\<lparr>ov_carry := c\<rparr>) lines)"

definition tail_step ::
  "DataMonitor \<Rightarrow> OverlayItem \<Rightarrow> nat \<Rightarrow> string \<Rightarrow> (DataMonitor \<times> OverlayItem) \<times> nat" where
  "tail_step self ov0 last_size file =
     (let size = length file;
          ov1 = (if size < ov_file_pos ov0 \<or> size < last_size then tail_truncated ov0 else ov0);
          chunk = drop (ov_file_pos ov1) file;
          ov2 = ov1\<lparr>ov_file_pos := length file\<rparr>
      in (if chunk \<noteq> [] then tail_chunk self ov2 chunk else (self, ov2), size))"

text \<open>
  The loops themselves, run over the contents that the file has at the successive passes.
  Both start with \<^verbatim>\<open>last_size = 0\<close>.
\<close>

fun read_loop_main_passes :: "DataMonitor \<Rightarrow> nat \<Rightarrow> string list \<Rightarrow> DataMonitor" where
  "read_loop_main_passes self last_size [] = self"
| "read_loop_main_passes self last_size (file # files) =
     (case read_loop_main_step self last_size file of
        (self', last_size') \<Rightarrow> read_loop_main_passes self' last_size' files)"

definition read_loop_main :: "DataMonitor \<Rightarrow> string list \<Rightarrow> DataMonitor" where
  "read_loop_main self files = read_loop_main_passes self 0 files"

fun tail_passes ::
  "DataMonitor \<Rightarrow> OverlayItem \<Rightarrow> nat \<Rightarrow> string list \<Rightarrow> DataMonitor \<times> OverlayItem" where
  "tail_passes self ov last_size [] = (self, ov)"
| "tail_passes self ov last_size (file # files) =
     (case tail_step self ov last_size file of
        ((self', ov'), last_size') \<Rightarrow> tail_passes self' ov' last_size' files)"

definition tail :: "DataMonitor \<Rightarrow> OverlayItem \<Rightarrow> string list \<Rightarrow> DataMonitor \<times> OverlayItem" where
  "tail self ov files = tail_passes self ov 0 files"

section \<open>Invariants and notions used in the properties\<close>

text \<open>
  The invariant of a buffer: the three sequences of a channel have the same length, and
  no sequence is longer than \<open>maxlen\<close>.
\<close>

definition buffers_ok :: "'a StreamBuffers \<Rightarrow> bool" where
  "buffers_ok b \<longleftrightarrow>
     length (t1 b) \<le> maxlen b \<and> length (T1 b) = length (t1 b) \<and> length (H1 b) = length (t1 b) \<and>
     length (t2 b) \<le> maxlen b \<and> length (T2 b) = length (t2 b) \<and> length (H2 b) = length (t2 b)"


text \<open>
  The last-good values of the monitor are sound: a channel has either no last-good values
  or a finite temperature and a finite humidity, both in range.
\<close>

definition last_good_ok :: "DataMonitor \<Rightarrow> bool" where
  "last_good_ok self \<longleftrightarrow>
     (\<forall>sid. (last_good_temp self sid = None \<and> last_good_hum self sid = None) \<or>
            (\<exists>a b. last_good_temp self sid = Some (Fin a) \<and> last_good_hum self sid = Some (Fin b) \<and>
                   - 40 \<le> a \<and> a \<le> 125 \<and> 0 \<le> b \<and> b \<le> 100))"

section \<open>Stream buffers are bounded and evict first in, first out\<close>

lemma deque_append_bounded: "length xs \<le> n \<Longrightarrow> length (deque_append n xs x) \<le> n"
  by (simp add: deque_append_def Let_def)

lemma deque_append_length_eq:
  "length xs = length ys \<Longrightarrow> length (deque_append n xs x) = length (deque_append n ys y)"
  by (simp add: deque_append_def Let_def)

lemma deque_append_full:
  "length xs = n \<Longrightarrow> 0 < n \<Longrightarrow> deque_append n xs x = tl xs @ [x]"
  by (cases xs) (simp_all add: deque_append_def)

lemma deque_append_room: "length xs < n \<Longrightarrow> deque_append n xs x = xs @ [x]"
  by (simp add: deque_append_def Let_def)

lemma buffers_ok_init: "buffers_ok (StreamBuffers_init n)"
  by (simp add: buffers_ok_def StreamBuffers_init_def)

lemma maxlen_push: "maxlen (push b t sid temp hum) = maxlen b"
  by (simp add: push_def)

lemma buffers_ok_push:
  assumes "buffers_ok b"
  shows "buffers_ok (push b t sid temp hum)"
proof (cases "sid = 1")
  case True
  with assms show ?thesis
    unfolding buffers_ok_def push_def
    by (simp add: deque_append_bounded deque_append_length_eq)
next
  case False
  with assms show ?thesis
    unfolding buffers_ok_def push_def
    by (simp add: deque_append_bounded deque_append_length_eq)
qed

lemma push_all_ok: "buffers_ok b \<Longrightarrow> buffers_ok (push_all b ops) \<and> maxlen (push_all b ops) = maxlen b"
proof (induction ops arbitrary: b)
  case Nil
  then show ?case by simp
next
  case (Cons op ops)
  obtain t sid temp hum where op: "op = (t, sid, temp, hum)"
    by (cases op) auto
  from Cons.prems have "buffers_ok (push b t sid temp hum)"
    by (rule buffers_ok_push)
  from Cons.IH [OF this] show ?case
    by (simp add: op maxlen_push)
qed

lemma push_full_1:
  assumes "buffers_ok b" and "length (t1 b) = maxlen b" and "0 < maxlen b"
  shows "push b t 1 temp hum =
           b\<lparr>t1 := tl (t1 b) @ [t], T1 := tl (T1 b) @ [temp], H1 := tl (H1 b) @ [hum]\<rparr>"
  using assms by (simp add: push_def buffers_ok_def deque_append_full)

lemma push_full_2:
  assumes "buffers_ok b" and "length (t2 b) = maxlen b" and "0 < maxlen b" and "sid \<noteq> 1"
  shows "push b t sid temp hum =
           b\<lparr>t2 := tl (t2 b) @ [t], T2 := tl (T2 b) @ [temp], H2 := tl (H2 b) @ [hum]\<rparr>"
  using assms by (simp add: push_def buffers_ok_def deque_append_full)

lemma push_all_snoc: "push_all b (ops @ [(t, sid, temp, hum)]) = push (push_all b ops) t sid temp hum"
  by (induction ops arbitrary: b) auto

lemma push_all_replicate_1:
  "k \<le> n \<Longrightarrow>
   push_all (StreamBuffers_init n) (replicate k (t, 1, temp, hum)) =
     \<lparr>maxlen = n, t1 = replicate k t, T1 = replicate k temp, H1 = replicate k hum,
      t2 = [], T2 = [], H2 = []\<rparr>"
proof (induction k)
  case 0
  then show ?case by (simp add: StreamBuffers_init_def)
next
  case (Suc k)
  have "replicate (Suc k) (t, 1::nat, temp, hum) = replicate k (t, 1, temp, hum) @ [(t, 1, temp, hum)]"
    by (simp add: replicate_append_same)
  with Suc show ?case
    by (simp only: push_all_snoc) (simp add: push_def deque_append_room replicate_append_same)
qed

text \<open>
  C3. Every buffer of the program is created with \<open>maxlen = MAX_POINTS = 250000\<close>. After
  any sequence of pushes into such a buffer, none of the six sequences has more than
  250000 entries. A push to channel 1 (\<open>sid = 1\<close>) whose sequences hold 250000 entries
  drops exactly the oldest entry of each of the three sequences of channel 1, appends the
  new one and leaves channel 2 as it is; a push with any other \<open>sid\<close> does the same to
  channel 2 and leaves channel 1 as it is.
\<close>

theorem StreamBuffers_bounded_fifo:
  assumes "b = push_all (StreamBuffers_init MAX_POINTS) ops"
  shows "(length (t1 b) \<le> 250000 \<and> length (T1 b) \<le> 250000 \<and> length (H1 b) \<le> 250000 \<and>
          length (t2 b) \<le> 250000 \<and> length (T2 b) \<le> 250000 \<and> length (H2 b) \<le> 250000) \<and>
         (length (t1 b) = 250000 \<longrightarrow>
            push b t 1 temp hum =
              b\<lparr>t1 := tl (t1 b) @ [t], T1 := tl (T1 b) @ [temp], H1 := tl (H1 b) @ [hum]\<rparr>) \<and>
         (sid \<noteq> 1 \<and> length (t2 b) = 250000 \<longrightarrow>
            push b t sid temp hum =
              b\<lparr>t2 := tl (t2 b) @ [t], T2 := tl (T2 b) @ [temp], H2 := tl (H2 b) @ [hum]\<rparr>)"
proof -
  have ok: "buffers_ok b" and cap: "maxlen b = 250000"
    using push_all_ok [OF buffers_ok_init, of MAX_POINTS ops] assms
    by (simp_all add: StreamBuffers_init_def MAX_POINTS_def)
  have bound: "length (t1 b) \<le> 250000 \<and> length (T1 b) \<le> 250000 \<and> length (H1 b) \<le> 250000 \<and>
          length (t2 b) \<le> 250000 \<and> length (T2 b) \<le> 250000 \<and> length (H2 b) \<le> 250000"
    using ok cap by (simp add: buffers_ok_def)
  have one: "length (t1 b) = 250000 \<longrightarrow>
            push b t 1 temp hum =
              b\<lparr>t1 := tl (t1 b) @ [t], T1 := tl (T1 b) @ [temp], H1 := tl (H1 b) @ [hum]\<rparr>"
    using push_full_1 [OF ok] cap by simp
  have two: "sid \<noteq> 1 \<and> length (t2 b) = 250000 \<longrightarrow>
            push b t sid temp hum =
              b\<lparr>t2 := tl (t2 b) @ [t], T2 := tl (T2 b) @ [temp], H2 := tl (H2 b) @ [hum]\<rparr>"
    using push_full_2 [OF ok] cap by simp
  from bound one two show ?thesis by blast
qed

theorem StreamBuffers_bounded_fifo_witness:
  "length (t1 (push_all (StreamBuffers_init MAX_POINTS) (replicate 250000 (0::int, 1, 20, 50)))) = 250000 \<and>
   t1 (push (push_all (StreamBuffers_init MAX_POINTS) (replicate 250000 (0::int, 1, 20, 50))) 7 1 21 51)
     = replicate 249999 0 @ [7] \<and>
   t2 (push (push_all (StreamBuffers_init MAX_POINTS) (replicate 250000 (0::int, 1, 20, 50))) 7 1 21 51)
     = []"
proof -
  define b where "b = push_all (StreamBuffers_init MAX_POINTS) (replicate 250000 (0::int, 1, 20, 50))"
  have shape: "b = \<lparr>maxlen = MAX_POINTS, t1 = replicate 250000 0, T1 = replicate 250000 20,
                    H1 = replicate 250000 50, t2 = [], T2 = [], H2 = []\<rparr>"
    unfolding b_def by (rule push_all_replicate_1) (simp add: MAX_POINTS_def)
  have len: "length (t1 b) = 250000"
    by (simp only: shape StreamBuffers.simps length_replicate)
  have "push b 7 1 21 51 =
          b\<lparr>t1 := tl (t1 b) @ [7], T1 := tl (T1 b) @ [21], H1 := tl (H1 b) @ [51]\<rparr>"
    using StreamBuffers_bounded_fifo [OF b_def, of 7 21 51] len by blast
  moreover have "tl (replicate 250000 (0::int)) = replicate 249999 0"
    by (simp only: tl_replicate) simp
  ultimately have "t1 (push b 7 1 21 51) = replicate 249999 0 @ [7]" and "t2 (push b 7 1 21 51) = []"
    by (simp_all add: shape)
  with len show ?thesis
    unfolding b_def by blast
qed

section \<open>Downsampling\<close>

lemma slice_step_one: "slice_step (Suc 0) xs = xs"
  by (induction xs) simp_all

lemma downsample_xy_within_budget:
  "int (length xs) \<le> max_points \<Longrightarrow> downsample_xy xs ys max_points = Inr (xs, ys)"
  by (simp add: downsample_xy_def)

lemma downsample_xy_below_twice_budget:
  assumes "max_points < int (length xs)" and "int (length xs) < 2 * max_points"
  shows "downsample_xy xs ys max_points = Inr (xs, ys)"
proof -
  have "int (length xs) div max_points = 1"
    using assms by (intro int_div_pos_eq [where r = "int (length xs) - max_points"]) auto
  with assms show ?thesis
    by (simp add: downsample_xy_def slice_step_one)
qed

text \<open>
  C5. The stride is \<open>max 1 (n div max_points)\<close>, the quotient rounded down, not up. For
  every length between the budget and twice the budget the stride is 1 and all points
  are returned: five points with a budget of three, and 2501 points with the budget
  \<open>DRAW_MAX_POINTS = 2500\<close> of the program, come back unchanged, more than the budget.
\<close>

theorem downsample_xy_exceeds_budget:
  "downsample_xy [0, 1, 2, 3, 4 :: int] [10, 11, 12, 13, 14 :: int] 3
     = Inr ([0, 1, 2, 3, 4], [10, 11, 12, 13, 14]) \<and>
   downsample_xy (replicate 2501 (0 :: int)) (replicate 2501 (0 :: int)) DRAW_MAX_POINTS
     = Inr (replicate 2501 0, replicate 2501 0)"
proof
  show "downsample_xy [0, 1, 2, 3, 4 :: int] [10, 11, 12, 13, 14 :: int] 3
     = Inr ([0, 1, 2, 3, 4], [10, 11, 12, 13, 14])"
    by (rule downsample_xy_below_twice_budget) simp_all
  show "downsample_xy (replicate 2501 (0 :: int)) (replicate 2501 (0 :: int)) DRAW_MAX_POINTS
     = Inr (replicate 2501 0, replicate 2501 0)"
    by (rule downsample_xy_below_twice_budget) (simp_all add: DRAW_MAX_POINTS_def)
qed

section \<open>Nearest-time lookup\<close>







section \<open>Timestamps\<close>




lemma str_nat_small: "n < 10 \<Longrightarrow> str_nat n = [digit_char n]"
  by (subst str_nat.simps) simp

lemma str_nat_large: "\<not> n < 10 \<Longrightarrow> str_nat n = str_nat (n div 10) @ [digit_char (n mod 10)]"
  by (subst str_nat.simps) simp

declare str_nat.simps [simp del]




lemma length_str_nat_pos: "0 < length (str_nat n)"
  by (cases "n < 10") (simp_all add: str_nat_small str_nat_large)












section \<open>Viewport limits\<close>




lemma ys_window_set:
  "set (ys_window xs ys x0 x1) =
     {ys ! i | i. i < length xs \<and> i < length ys \<and> x0 \<le> xs ! i \<and> xs ! i \<le> x1}"
  unfolding ys_window_def
  by (auto simp: set_zip image_iff) force




section \<open>The line parser\<close>

subsection \<open>The numbers of the line pattern are floats\<close>

lemma is_digit_plain:
  assumes "is_digit c"
  shows "\<not> py_isspace c" and "\<not> is_e c" and "c \<noteq> CHR ''.''" and "c \<noteq> CHR ''_''"
    and "c \<noteq> CHR ''-''" and "c \<noteq> CHR ''+''" and "lower_char c = c"
  using assms by (auto simp: is_digit_def py_isspace_def is_e_def lower_char_def Let_def)

lemma digitpart_ok_digits: "ds \<noteq> [] \<Longrightarrow> list_all is_digit ds \<Longrightarrow> digitpart_ok ds"
proof (induction ds rule: digitpart_ok.induct)
  case 1
  then show ?case by simp
next
  case (2 c)
  then show ?case by simp
next
  case (3 c d cs)
  then show ?case by (simp add: is_digit_plain(4))
qed

lemma strip_id:
  assumes "s \<noteq> []" and "\<not> py_isspace (hd s)" and "\<not> py_isspace (last s)"
  shows "strip s = s"
proof -
  have "dropWhile py_isspace s = s"
    using assms by (cases s) simp_all
  moreover have "dropWhile py_isspace (rev s) = rev s"
    using assms by (cases "rev s") (simp_all add: hd_rev)
  ultimately show ?thesis
    by (simp add: strip_def)
qed

lemma float_mantissa_int:
  assumes "ds \<noteq> []" and "list_all is_digit ds"
  shows "\<exists>x. float_mantissa ds = Some x"
proof -
  have tw: "takeWhile (\<lambda>c. c \<noteq> CHR ''.'') ds = ds"
    using assms(2) by (simp add: takeWhile_eq_all_conv list_all_iff is_digit_plain(3))
  from this have dw: "dropWhile (\<lambda>c. c \<noteq> CHR ''.'') ds = []"
    by (metis append_self_conv takeWhile_dropWhile_id)
  show ?thesis
    unfolding float_mantissa_def Let_def tw dw
    using assms by (simp add: digitpart_ok_digits)
qed

lemma float_mantissa_frac:
  assumes "ds \<noteq> []" and "list_all is_digit ds" and "fs \<noteq> []" and "list_all is_digit fs"
  shows "\<exists>x. float_mantissa (ds @ CHR ''.'' # fs) = Some x"
proof -
  have tw: "takeWhile (\<lambda>c. c \<noteq> CHR ''.'') (ds @ CHR ''.'' # fs) = ds"
    using assms(2) by (simp add: takeWhile_append2 list_all_iff is_digit_plain(3))
  have dw: "dropWhile (\<lambda>c. c \<noteq> CHR ''.'') (ds @ CHR ''.'' # fs) = CHR ''.'' # fs"
    using assms(2) by (simp add: dropWhile_append2 list_all_iff is_digit_plain(3))
  show ?thesis
    unfolding float_mantissa_def Let_def tw dw
    using assms by (simp add: digitpart_ok_digits)
qed

text \<open>A text of digits and points, starting and ending with a digit.\<close>

lemma py_float_unsigned:
  assumes body: "list_all (\<lambda>c. is_digit c \<or> c = CHR ''.'') body"
    and ne: "body \<noteq> []" and first: "is_digit (hd body)" and final: "is_digit (last body)"
    and mant: "float_mantissa body = Some x"
  shows "py_float body = Some (Fin x)" and "py_float (CHR ''-'' # body) = Some (Fin (- x))"
proof -
  have no_e: "\<not> is_e c" if "c \<in> set body" for c
  proof -
    from body that have "is_digit c \<or> c = CHR ''.''"
      by (simp add: list_all_iff)
    then show ?thesis
      using is_digit_plain(2) [of c] by (auto simp: is_e_def)
  qed
  have tw: "takeWhile (\<lambda>c. \<not> is_e c) body = body"
    using no_e by (simp add: takeWhile_eq_all_conv)
  from this have dw: "dropWhile (\<lambda>c. \<not> is_e c) body = []"
    by (metis append_self_conv takeWhile_dropWhile_id)
  have num: "float_number body = Some x"
    unfolding float_number_def Let_def tw dw
    using mant by simp
  have "lower_char c = c" if "c \<in> set body" for c
  proof -
    from body that have "is_digit c \<or> c = CHR ''.''"
      by (simp add: list_all_iff)
    then show ?thesis
      using is_digit_plain(7) [of c] by (auto simp: lower_char_def)
  qed
  then have low: "lower body = body"
    by (simp add: lower_def map_idI)
  obtain c cs where cs: "body = c # cs"
    using ne by (cases body) auto
  with first have c: "is_digit c"
    by simp
  have words: "body \<noteq> ''inf''" "body \<noteq> ''infinity''" "body \<noteq> ''nan''"
    using c cs by (auto simp: is_digit_def)
  have sign: "split_sign body = (False, body)"
    using c cs is_digit_plain(5,6) [OF c] by (simp add: split_sign_def)
  have "strip body = body"
    using ne first final by (intro strip_id) (simp_all add: is_digit_plain(1))
  then show "py_float body = Some (Fin x)"
    using sign low words num by (simp add: py_float_def)
  have minus: "\<not> py_isspace (CHR ''-'')"
    by (simp add: py_isspace_def)
  have "strip (CHR ''-'' # body) = CHR ''-'' # body"
    using final ne minus by (intro strip_id) (simp_all add: is_digit_plain(1))
  moreover have "split_sign (CHR ''-'' # body) = (True, body)"
    by (simp add: split_sign_def)
  ultimately show "py_float (CHR ''-'' # body) = Some (Fin (- x))"
    using low words num by (simp add: py_float_def)
qed

lemma takeWhile_digits: "list_all is_digit (takeWhile is_digit s)"
  by (induction s) simp_all

lemma re_number_float:
  assumes "re_number s = Some (g, r)"
  shows "\<exists>x. py_float g = Some (Fin x)"
proof -
  define sg where "sg = (if startswith s ''-'' then ''-'' else [])"
  define r0 where "r0 = drop (length sg) s"
  define ds where "ds = takeWhile is_digit r0"
  define r1 where "r1 = dropWhile is_digit r0"
  define fs where "fs = takeWhile is_digit (tl r1)"
  define body where "body = (if startswith r1 ''.'' then ds @ CHR ''.'' # fs else ds)"
  have ds: "ds \<noteq> []" and fs: "startswith r1 ''.'' \<Longrightarrow> fs \<noteq> []" and g: "g = sg @ body"
    using assms
    by (auto simp: re_number_def Let_def sg_def r0_def ds_def r1_def fs_def body_def
        split: if_splits)
  have dig: "list_all is_digit ds" "list_all is_digit fs"
    by (simp_all add: ds_def fs_def takeWhile_digits)
  have "\<exists>x. float_mantissa body = Some x"
    using ds fs dig by (auto simp: body_def float_mantissa_int float_mantissa_frac)
  then obtain x where x: "float_mantissa body = Some x" ..
  have chars: "list_all (\<lambda>c. is_digit c \<or> c = CHR ''.'') body"
    using dig by (auto simp: body_def list_all_iff)
  have ne: "body \<noteq> []"
    using ds by (simp add: body_def)
  have first: "is_digit (hd body)"
    using ds dig(1) by (cases ds) (auto simp: body_def)
  have final: "is_digit (last body)"
  proof (cases "startswith r1 ''.''")
    case True
    with fs [OF True] dig(2) show ?thesis
      by (simp add: body_def list_all_iff)
  next
    case False
    with ds dig(1) show ?thesis
      by (simp add: body_def list_all_iff)
  qed
  from py_float_unsigned [OF chars ne first final x] g show ?thesis
    by (auto simp: sg_def)
qed

subsection \<open>What the parser can return\<close>

lemma sensor_id_cases: "sensor_id txt = 1 \<or> sensor_id txt = 2"
  by (simp add: sensor_id_def)

text \<open>
  A line either decodes to no sample at all, or to one candidate \<open>(t_abs, sid, temp, hum)\<close>
  that is handed to the validation; which of the two does not depend on the monitor.
\<close>

lemma delimited_branch_shape:
  "(\<forall>self. delimited_branch self parts = None) \<or>
   (\<exists>t sid temp hum. (sid = 1 \<or> sid = 2) \<and>
      (\<forall>self. delimited_branch self parts = Some (validate self t sid temp hum)))"
proof -
  define k :: nat where "k = (if length parts = 5 then 1 else 0)"
  define lbl where "lbl = parts ! (k + 1)"
  let ?t = "py_float (parts ! k)" and ?temp = "py_float (parts ! (k + 2))"
    and ?hum = "py_float (parts ! (k + 3))"
  consider (fail) "?t = None \<or> ?temp = None \<or> ?hum = None \<or> \<not> startswith (lower lbl) ''sensor''"
    | (ok) t temp hum where "?t = Some t" "?temp = Some temp" "?hum = Some hum"
        "startswith (lower lbl) ''sensor''"
    by (cases ?t; cases ?temp; cases ?hum) auto
  then show ?thesis
  proof cases
    case fail
    then have "\<forall>self. delimited_branch self parts = None"
      unfolding delimited_branch_def Let_def k_def [symmetric] lbl_def [symmetric]
      by (auto split: option.splits)
    then show ?thesis ..
  next
    case ok
    then have "\<forall>self. delimited_branch self parts = Some (validate self t (sensor_id lbl) temp hum)"
      unfolding delimited_branch_def Let_def k_def [symmetric] lbl_def [symmetric]
      by simp
    with sensor_id_cases [of lbl] show ?thesis
      by blast
  qed
qed

lemma LINE_RE_match_numbers:
  assumes "LINE_RE_match s = Some m"
  shows "\<exists>s1 r1 s2 r2. re_number s1 = Some (g_temp m, r1) \<and> re_number s2 = Some (g_rh m, r2)"
  using assms
  by (auto simp: LINE_RE_match_def Option.bind_eq_Some_conv split: if_splits; blast)

lemma pattern_branch_shape:
  "(\<forall>self. pattern_branch self s = Inr (None, self)) \<or>
   (\<exists>t sid temp hum. (sid = 1 \<or> sid = 2) \<and>
      (\<forall>self. pattern_branch self s = Inr (validate self t sid temp hum)))"
proof (cases "LINE_RE_match s")
  case None
  then show ?thesis by (simp add: pattern_branch_def)
next
  case (Some m)
  from LINE_RE_match_numbers [OF Some] re_number_float
  obtain x y where "py_float (g_temp m) = Some (Fin x)" and "py_float (g_rh m) = Some (Fin y)"
    by blast
  with Some have "\<forall>self. pattern_branch self s =
      Inr (validate self (to_seconds (g_m m) (g_s m) (g_ms m)) (sensor_id (g_sensor m)) (Fin x) (Fin y))"
    by (simp add: pattern_branch_def)
  with sensor_id_cases [of "g_sensor m"] show ?thesis
    by blast
qed

lemma parse_shape:
  "(\<forall>self. parse_log_line_abs_seconds self s = Inr (None, self)) \<or>
   (\<exists>t sid temp hum. (sid = 1 \<or> sid = 2) \<and>
      (\<forall>self. parse_log_line_abs_seconds self s = Inr (validate self t sid temp hum)))"
proof -
  let ?parts = "map strip (split (CHR '','') s)"
  consider (skip) "s = [] \<or> contains s ''TS,Sensor,TempC,RH''"
    | (fields) "\<not> (s = [] \<or> contains s ''TS,Sensor,TempC,RH'')"
        "length ?parts = 4 \<or> length ?parts = 5"
        "\<exists>t sid temp hum. (sid = 1 \<or> sid = 2) \<and>
           (\<forall>self. delimited_branch self ?parts = Some (validate self t sid temp hum))"
    | (pattern) "\<forall>self. parse_log_line_abs_seconds self s = pattern_branch self s"
  proof (cases "s = [] \<or> contains s ''TS,Sensor,TempC,RH''")
    case True
    then show ?thesis by (rule skip)
  next
    case no_skip: False
    show ?thesis
    proof (cases "length ?parts = 4 \<or> length ?parts = 5")
      case False
      with no_skip have "\<forall>self. parse_log_line_abs_seconds self s = pattern_branch self s"
        by (simp add: parse_log_line_abs_seconds_def Let_def)
      then show ?thesis by (rule pattern)
    next
      case True
      from delimited_branch_shape [of ?parts] show ?thesis
      proof
        assume none: "\<forall>self. delimited_branch self ?parts = None"
        with no_skip True
        have "\<forall>self. parse_log_line_abs_seconds self s = pattern_branch self s"
          by (simp add: parse_log_line_abs_seconds_def Let_def)
        then show ?thesis by (rule pattern)
      next
        assume "\<exists>t sid temp hum. (sid = 1 \<or> sid = 2) \<and>
           (\<forall>self. delimited_branch self ?parts = Some (validate self t sid temp hum))"
        with no_skip True show ?thesis by (rule fields)
      qed
    qed
  qed
  then show ?thesis
  proof cases
    case skip
    then have "\<forall>self. parse_log_line_abs_seconds self s = Inr (None, self)"
      by (auto simp: parse_log_line_abs_seconds_def)
    then show ?thesis ..
  next
    case fields
    then obtain t sid temp hum where sid: "sid = 1 \<or> sid = 2"
      and d: "\<forall>self. delimited_branch self ?parts = Some (validate self t sid temp hum)"
      by blast
    from fields(1,2) d
    have "\<forall>self. parse_log_line_abs_seconds self s = Inr (validate self t sid temp hum)"
      by (simp add: parse_log_line_abs_seconds_def Let_def)
    with sid show ?thesis by blast
  next
    case pattern
    with pattern_branch_shape [of s] show ?thesis by simp
  qed
qed

subsection \<open>Validation\<close>

lemma valid_ranges_Fin:
  assumes "valid_ranges temp hum"
  shows "\<exists>x y. temp = Fin x \<and> hum = Fin y \<and> - 40 \<le> x \<and> x \<le> 125 \<and> 0 \<le> y \<and> y \<le> 100"
  using assms
  by (cases temp; cases hum)
     (simp_all add: valid_ranges_def TEMP_MIN_C_def TEMP_MAX_C_def HUM_MIN_PCT_def HUM_MAX_PCT_def)


lemma valid_step_first:
  "last_good_temp self sid = None \<or> last_good_hum self sid = None \<Longrightarrow> valid_step self sid temp hum"
  by (auto simp: valid_step_def split: option.splits)

lemma validate_accept:
  "valid_ranges temp hum \<Longrightarrow> valid_step self sid temp hum \<Longrightarrow>
   validate self t sid temp hum =
     (Some (t, sid, temp, hum),
      self\<lparr>last_good_temp := (last_good_temp self)(sid := Some temp),
           last_good_hum := (last_good_hum self)(sid := Some hum)\<rparr>)"
  by (simp add: validate_def)

lemma validate_reject:
  "\<not> (valid_ranges temp hum \<and> valid_step self sid temp hum) \<Longrightarrow>
   validate self t sid temp hum = (None, self)"
  by (auto simp: validate_def)

text \<open>
  The values kept as last good are values that were accepted, so they are finite and in
  range once the monitor has started from its initial state.
\<close>

lemma last_good_ok_init: "last_good_ok DataMonitor_init"
  by (simp add: last_good_ok_def DataMonitor_init_def)

lemma last_good_ok_truncated: "last_good_ok (main_truncated self)"
  by (simp add: last_good_ok_def main_truncated_def)

lemma last_good_ok_validate:
  assumes "last_good_ok self"
  shows "last_good_ok (snd (validate self t sid temp hum))"
proof (cases "valid_ranges temp hum \<and> valid_step self sid temp hum")
  case False
  with assms show ?thesis by (simp add: validate_reject)
next
  case True
  then obtain x y where "temp = Fin x" "hum = Fin y"
      "- 40 \<le> x" "x \<le> 125" "0 \<le> y" "y \<le> 100"
    using valid_ranges_Fin by blast
  with True assms show ?thesis
    by (simp add: validate_accept last_good_ok_def)
qed

lemma last_good_ok_parse:
  assumes "last_good_ok self" and "parse_log_line_abs_seconds self s = Inr (r, self')"
  shows "last_good_ok self'"
proof -
  from parse_shape [of s]
  consider "parse_log_line_abs_seconds self s = Inr (None, self)"
    | t sid temp hum where "parse_log_line_abs_seconds self s = Inr (validate self t sid temp hum)"
    by blast
  then show ?thesis
  proof cases
    case 1
    with assms show ?thesis by simp
  next
    case 2
    with assms(2) have "self' = snd (validate self t sid temp hum)"
      by (metis Inr_inject snd_conv)
    with assms(1) show ?thesis
      by (simp add: last_good_ok_validate)
  qed
qed

subsection \<open>A line of four or five fields\<close>

lemma parse_delimited:
  assumes parts: "map strip (split (CHR '','') s) = pre @ [ft, lbl, ftemp, fhum]"
    and pre: "length pre \<le> 1"
    and header: "\<not> contains s ''TS,Sensor,TempC,RH''"
    and floats: "py_float ft = Some t" "py_float ftemp = Some temp" "py_float fhum = Some hum"
    and label: "startswith (lower lbl) ''sensor''"
  shows "parse_log_line_abs_seconds self s = Inr (validate self t (sensor_id lbl) temp hum)"
proof -
  let ?parts = "map strip (split (CHR '','') s)"
  have ne: "s \<noteq> []"
    using parts by auto
  have "(length ?parts = 4 \<or> length ?parts = 5) \<and>
        delimited_branch self ?parts = Some (validate self t (sensor_id lbl) temp hum)"
  proof (cases pre)
    case Nil
    with parts have "?parts = [ft, lbl, ftemp, fhum]"
      by simp
    then show ?thesis
      by (simp add: delimited_branch_def floats label)
  next
    case (Cons p ps)
    with pre parts have "?parts = [p, ft, lbl, ftemp, fhum]"
      by simp
    then show ?thesis
      by (simp add: delimited_branch_def floats label)
  qed
  with ne header show ?thesis
    by (simp add: parse_log_line_abs_seconds_def Let_def)
qed

lemma parse_no_format:
  assumes "s \<noteq> []" and "\<not> contains s ''TS,Sensor,TempC,RH''"
    and "length (split (CHR '','') s) \<noteq> 4" and "length (split (CHR '','') s) \<noteq> 5"
    and "LINE_RE_match s = None"
  shows "parse_log_line_abs_seconds self s = Inr (None, self)"
  using assms by (simp add: parse_log_line_abs_seconds_def Let_def pattern_branch_def)

subsection \<open>Accepted samples\<close>



subsection \<open>The channel of a delimited line\<close>

text \<open>
  C10. In a line of four or five comma-separated fields whose time, temperature and
  humidity fields are floats and whose label field starts with "sensor" in any case, the
  channel is 1 when the label without its spaces ends with the character 1 and 2
  otherwise, whatever the label ends with: if the values pass the range check and the
  step check of that channel, the sample is accepted for that channel. "Sensor3" goes to
  channel 2.
\<close>

theorem delimited_label_decides_channel:
  assumes "map strip (split (CHR '','') s) = pre @ [ft, lbl, ftemp, fhum]"
    and "length pre \<le> 1"
    and "\<not> contains s ''TS,Sensor,TempC,RH''"
    and "py_float ft = Some t" and "py_float ftemp = Some temp" and "py_float fhum = Some hum"
    and "startswith (lower lbl) ''sensor''"
    and "valid_ranges temp hum"
    and "valid_step self (if endswith (remove_spaces lbl) ''1'' then 1 else 2) temp hum"
  shows "parse_log_line_abs_seconds self s =
           Inr (Some (t, (if endswith (remove_spaces lbl) ''1'' then 1 else 2), temp, hum),
                self\<lparr>last_good_temp :=
                        (last_good_temp self)
                          ((if endswith (remove_spaces lbl) ''1'' then 1 else 2) := Some temp),
                      last_good_hum :=
                        (last_good_hum self)
                          ((if endswith (remove_spaces lbl) ''1'' then 1 else 2) := Some hum)\<rparr>)"
proof -
  have "parse_log_line_abs_seconds self s = Inr (validate self t (sensor_id lbl) temp hum)"
    using assms(1-7) by (rule parse_delimited)
  moreover have "valid_step self (sensor_id lbl) temp hum"
    using assms(9) by (simp add: sensor_id_def)
  ultimately show ?thesis
    using assms(8) by (simp add: validate_accept) (simp add: sensor_id_def)
qed

theorem delimited_label_decides_channel_witness:
  "map strip (split (CHR '','') ''0,Sensor3,25.0,40.0'') = [] @ [''0'', ''Sensor3'', ''25.0'', ''40.0''] \<and>
   startswith (lower ''Sensor3'') ''sensor'' \<and> \<not> endswith (remove_spaces ''Sensor3'') ''1'' \<and>
   valid_ranges (Fin 25) (Fin 40) \<and> valid_step DataMonitor_init 2 (Fin 25) (Fin 40) \<and>
   parse_log_line_abs_seconds DataMonitor_init ''0,Sensor3,25.0,40.0'' =
     Inr (Some (Fin 0, 2, Fin 25, Fin 40),
          DataMonitor_init\<lparr>last_good_temp := (last_good_temp DataMonitor_init)(2 := Some (Fin 25)),
                            last_good_hum := (last_good_hum DataMonitor_init)(2 := Some (Fin 40))\<rparr>)"
proof -
  let ?s = "''0,Sensor3,25.0,40.0''"
  have parts: "map strip (split (CHR '','') ?s) = [] @ [''0'', ''Sensor3'', ''25.0'', ''40.0'']"
    by code_simp
  have pre: "length ([] :: string list) \<le> 1"
    by simp
  have header: "\<not> contains ?s ''TS,Sensor,TempC,RH''"
    by code_simp
  have floats: "py_float ''0'' = Some (Fin 0)" "py_float ''25.0'' = Some (Fin 25)"
    "py_float ''40.0'' = Some (Fin 40)"
    by code_simp+
  have label: "startswith (lower ''Sensor3'') ''sensor''"
    and other: "\<not> endswith (remove_spaces ''Sensor3'') ''1''"
    by code_simp+
  have ranges: "valid_ranges (Fin 25) (Fin 40)"
    by (simp add: valid_ranges_def TEMP_MIN_C_def TEMP_MAX_C_def HUM_MIN_PCT_def HUM_MAX_PCT_def)
  have step: "valid_step DataMonitor_init 2 (Fin 25) (Fin 40)"
    by (simp add: valid_step_def DataMonitor_init_def)
  have step': "valid_step DataMonitor_init (if endswith (remove_spaces ''Sensor3'') ''1'' then 1 else 2)
                 (Fin 25) (Fin 40)"
    using step other by simp
  from delimited_label_decides_channel [OF parts pre header floats label ranges step']
  have "parse_log_line_abs_seconds DataMonitor_init ?s =
     Inr (Some (Fin 0, 2, Fin 25, Fin 40),
          DataMonitor_init\<lparr>last_good_temp := (last_good_temp DataMonitor_init)(2 := Some (Fin 25)),
                            last_good_hum := (last_good_hum DataMonitor_init)(2 := Some (Fin 40))\<rparr>)"
    using other by simp
  with parts label other ranges step show ?thesis
    by blast
qed

section \<open>Lines across reads\<close>

lemma is_linebreak_CR_LF: "is_linebreak (CHR 0x0D)" "is_linebreak (CHR 0x0A)"
  by (simp_all add: is_linebreak_def)

lemma splitlines_no_break:
  "s \<noteq> [] \<Longrightarrow> \<forall>c\<in>set s. \<not> is_linebreak c \<Longrightarrow> splitlines s = [s]"
proof (induction s rule: splitlines.induct)
  case 1
  then show ?case by simp
next
  case (2 c)
  then show ?case by simp
next
  case (3 c d cs)
  from "3.prems" have c: "\<not> is_linebreak c" and rest: "\<forall>c\<in>set (d # cs). \<not> is_linebreak c"
    by simp_all
  from c is_linebreak_CR_LF(1) have "c \<noteq> CHR 0x0D"
    by auto
  with c rest "3.IH"(3) show ?case
    by simp
qed

lemma endswith_single: "endswith s [c] \<longleftrightarrow> s \<noteq> [] \<and> last s = c"
  by (cases s rule: rev_cases) (simp_all add: endswith_def)

lemma pop_carry_partial:
  assumes "s \<noteq> []" and "\<not> is_linebreak (last s)"
  shows "pop_carry [s] = ([], s)"
proof -
  from assms(2) is_linebreak_CR_LF have "last s \<noteq> CHR 0x0A" "last s \<noteq> CHR 0x0D"
    by auto
  with assms(1) show ?thesis
    by (simp add: pop_carry_def endswith_single)
qed

lemma main_chunk_carry_only:
  assumes "carry self = []" and "a \<noteq> []" and "\<forall>c\<in>set a. \<not> is_linebreak c"
  shows "main_chunk self a = self\<lparr>carry := a\<rparr>"
proof -
  have "pop_carry (splitlines a) = ([], a)"
    using assms(2,3) by (simp add: splitlines_no_break pop_carry_partial)
  with assms(1) show ?thesis
    by (simp add: main_chunk_def)
qed

lemma main_chunk_one_line:
  assumes "carry self = []" and "splitlines chunk = [l]" and "endswith l [CHR 0x0A]"
  shows "main_chunk self chunk =
           (case parse_log_line_abs_seconds self (strip l) of
              Inl e \<Rightarrow> self\<lparr>event_q := event_q self @ [ERROR e]\<rparr>
            | Inr (None, self') \<Rightarrow> self'
            | Inr (Some parsed, self') \<Rightarrow> self'\<lparr>queue := queue self' @ [parsed]\<rparr>)"
proof -
  have same: "self\<lparr>carry := []\<rparr> = self"
    using assms(1) by simp
  have "main_chunk self chunk =
          (case main_feed (self\<lparr>carry := []\<rparr>) [l] of
             (self', None) \<Rightarrow> self'
           | (self', Some e) \<Rightarrow> self'\<lparr>event_q := event_q self' @ [ERROR e]\<rparr>)"
    using assms by (simp add: main_chunk_def pop_carry_def)
  then show ?thesis
    unfolding same by (simp split: sum.splits option.splits prod.splits)
qed

lemma read_loop_main_reassembles:
  assumes "carry self = []" and "file_pos self = 0" and "\<forall>c\<in>set a. \<not> is_linebreak c"
  shows "read_loop_main self [a, a @ b] = read_loop_main self [a @ b]"
proof (cases "a = []")
  case True
  have "self\<lparr>file_pos := 0\<rparr> = self"
    using assms(2) by simp
  then have "read_loop_main_step self 0 [] = (self, 0)"
    using assms(2) by (simp add: read_loop_main_step_def)
  with True show ?thesis
    by (simp add: read_loop_main_def)
next
  case False
  let ?S = "self\<lparr>file_pos := length (a @ b)\<rparr>"
  have first: "read_loop_main_step self 0 a = (self\<lparr>file_pos := length a, carry := a\<rparr>, length a)"
    using assms False by (simp add: read_loop_main_step_def main_chunk_carry_only)
  have single: "read_loop_main_step self 0 (a @ b) = (main_chunk ?S (a @ b), length (a @ b))"
    using assms(2) False by (simp add: read_loop_main_step_def)
  have second: "read_loop_main_step (self\<lparr>file_pos := length a, carry := a\<rparr>) (length a) (a @ b)
                  = (main_chunk ?S (a @ b), length (a @ b))"
  proof (cases "b = []")
    case True
    have "main_chunk (self\<lparr>file_pos := length a\<rparr>) a = self\<lparr>file_pos := length a, carry := a\<rparr>"
      using assms(1,3) False by (simp add: main_chunk_carry_only)
    with True show ?thesis
      by (simp add: read_loop_main_step_def Let_def)
  next
    case False
    with assms(1) show ?thesis
      by (simp add: read_loop_main_step_def Let_def main_chunk_def)
  qed
  show ?thesis
    by (simp add: read_loop_main_def first second single)
qed

text \<open>The reassembled line of the example, and the same line with a time field.\<close>

lemma example_line_rejected:
  "parse_log_line_abs_seconds self ''Sensor1,25.0,40.0'' = Inr (None, self)"
proof (rule parse_no_format)
  show "''Sensor1,25.0,40.0'' \<noteq> []"
    by simp
  show "\<not> contains ''Sensor1,25.0,40.0'' ''TS,Sensor,TempC,RH''"
    by code_simp
  show "length (split (CHR '','') ''Sensor1,25.0,40.0'') \<noteq> 4"
    by code_simp
  show "length (split (CHR '','') ''Sensor1,25.0,40.0'') \<noteq> 5"
    by code_simp
  show "LINE_RE_match ''Sensor1,25.0,40.0'' = None"
    by code_simp
qed

lemma timed_line_decoded:
  "parse_log_line_abs_seconds self ''0.0,Sensor1,25.0,40.0''
     = Inr (validate self (Fin 0) 1 (Fin 25) (Fin 40))"
proof -
  have parts: "map strip (split (CHR '','') ''0.0,Sensor1,25.0,40.0'')
                 = [] @ [''0.0'', ''Sensor1'', ''25.0'', ''40.0'']"
    by code_simp
  have header: "\<not> contains ''0.0,Sensor1,25.0,40.0'' ''TS,Sensor,TempC,RH''"
    by code_simp
  have floats: "py_float ''0.0'' = Some (Fin 0)" "py_float ''25.0'' = Some (Fin 25)"
    "py_float ''40.0'' = Some (Fin 40)"
    by code_simp+
  have label: "startswith (lower ''Sensor1'') ''sensor''" and sid: "sensor_id ''Sensor1'' = 1"
    by code_simp+
  from parse_delimited [OF parts _ header floats label, of self] sid show ?thesis
    by simp
qed

lemma read_example_line:
  "queue (read_loop_main DataMonitor_init [''Sensor1,25.0,40.0\<newline>'']) = []"
proof -
  let ?file = "''Sensor1,25.0,40.0\<newline>''"
  let ?S = "DataMonitor_init\<lparr>file_pos := length ?file\<rparr>"
  have lines: "splitlines ?file = [?file]" and nl: "endswith ?file [CHR 0x0A]"
    and stripped: "strip ?file = ''Sensor1,25.0,40.0''"
    by code_simp+
  have "carry ?S = []"
    by (simp add: DataMonitor_init_def)
  from main_chunk_one_line [OF this lines nl] have "main_chunk ?S ?file = ?S"
    by (simp add: stripped example_line_rejected)
  then have "read_loop_main DataMonitor_init [?file] = ?S"
    by (simp add: read_loop_main_def read_loop_main_step_def DataMonitor_init_def)
  then show ?thesis
    by (simp add: DataMonitor_init_def)
qed

lemma read_timed_line:
  "queue (read_loop_main DataMonitor_init [''0.0,Sensor1,25.0,40.0\<newline>''])
     = [(Fin 0, 1, Fin 25, Fin 40)]"
proof -
  let ?file = "''0.0,Sensor1,25.0,40.0\<newline>''"
  let ?S = "DataMonitor_init\<lparr>file_pos := length ?file\<rparr>"
  have lines: "splitlines ?file = [?file]" and nl: "endswith ?file [CHR 0x0A]"
    and stripped: "strip ?file = ''0.0,Sensor1,25.0,40.0''"
    by code_simp+
  have c: "carry ?S = []"
    by (simp add: DataMonitor_init_def)
  have ranges: "valid_ranges (Fin 25) (Fin 40)"
    by (simp add: valid_ranges_def TEMP_MIN_C_def TEMP_MAX_C_def HUM_MIN_PCT_def HUM_MAX_PCT_def)
  have step: "valid_step ?S 1 (Fin 25) (Fin 40)"
    by (simp add: valid_step_def DataMonitor_init_def)
  have "queue (main_chunk ?S ?file) = queue ?S @ [(Fin 0, 1, Fin 25, Fin 40)]"
    unfolding main_chunk_one_line [OF c lines nl] stripped timed_line_decoded
      validate_accept [OF ranges step]
    by simp
  moreover have "read_loop_main DataMonitor_init [?file] = main_chunk ?S ?file"
    by (simp add: read_loop_main_def read_loop_main_step_def DataMonitor_init_def)
  ultimately show ?thesis
    by (simp add: DataMonitor_init_def)
qed

text \<open>
  C9, as stated, fails: the two reads give no accepted sample, since the reassembled line
  \<open>Sensor1,25.0,40.0\<close> has three fields and no time and matches neither format.
\<close>

theorem split_line_one_sample_counterexample:
  "queue (read_loop_main DataMonitor_init [''Sensor1,2'', ''Sensor1,2'' @ ''5.0,40.0\<newline>'']) = []"
proof -
  have "read_loop_main DataMonitor_init [''Sensor1,2'', ''Sensor1,2'' @ ''5.0,40.0\<newline>'']
          = read_loop_main DataMonitor_init [''Sensor1,2'' @ ''5.0,40.0\<newline>'']"
    by (rule read_loop_main_reassembles) (simp_all add: DataMonitor_init_def is_linebreak_def)
  with read_example_line show ?thesis
    by simp
qed

text \<open>
  C9, amended. When the main tailer starts with an empty carry at offset 0 and the first
  read returns a text \<open>a\<close> without a line boundary, \<open>a\<close> is kept as carry, and after the
  next read, when the file holds \<open>a @ b\<close>, the monitor (queue of accepted samples, carry,
  offset, last-good values, events) is the same as after a single read of \<open>a @ b\<close>. For
  \<open>Sensor1,2\<close> followed by \<open>5.0,40.0\<close> and a newline that common outcome is no accepted
  sample; for the line with a time field, \<open>0.0,Sensor1,2\<close> followed by the same second
  chunk, it is exactly one accepted sample, \<open>(0, 1, 25, 40)\<close>.
\<close>

theorem split_line_reassembled:
  assumes "carry self = []" and "file_pos self = 0" and "\<forall>c\<in>set a. \<not> is_linebreak c"
  shows "read_loop_main self [a, a @ b] = read_loop_main self [a @ b] \<and>
         read_loop_main DataMonitor_init [''Sensor1,2'', ''Sensor1,2'' @ ''5.0,40.0\<newline>'']
           = read_loop_main DataMonitor_init [''Sensor1,25.0,40.0\<newline>''] \<and>
         queue (read_loop_main DataMonitor_init [''Sensor1,25.0,40.0\<newline>'']) = [] \<and>
         queue (read_loop_main DataMonitor_init
                  [''0.0,Sensor1,2'', ''0.0,Sensor1,2'' @ ''5.0,40.0\<newline>''])
           = [(Fin 0, 1, Fin 25, Fin 40)]"
proof (intro conjI)
  show "read_loop_main self [a, a @ b] = read_loop_main self [a @ b]"
    using assms by (rule read_loop_main_reassembles)
  have "read_loop_main DataMonitor_init [''Sensor1,2'', ''Sensor1,2'' @ ''5.0,40.0\<newline>'']
          = read_loop_main DataMonitor_init [''Sensor1,2'' @ ''5.0,40.0\<newline>'']"
    by (rule read_loop_main_reassembles) (simp_all add: DataMonitor_init_def is_linebreak_def)
  then show "read_loop_main DataMonitor_init [''Sensor1,2'', ''Sensor1,2'' @ ''5.0,40.0\<newline>'']
           = read_loop_main DataMonitor_init [''Sensor1,25.0,40.0\<newline>'']"
    by simp
  show "queue (read_loop_main DataMonitor_init [''Sensor1,25.0,40.0\<newline>'']) = []"
    by (rule read_example_line)
  have "read_loop_main DataMonitor_init [''0.0,Sensor1,2'', ''0.0,Sensor1,2'' @ ''5.0,40.0\<newline>'']
          = read_loop_main DataMonitor_init [''0.0,Sensor1,2'' @ ''5.0,40.0\<newline>'']"
    by (rule read_loop_main_reassembles) (simp_all add: DataMonitor_init_def is_linebreak_def)
  with read_timed_line
  show "queue (read_loop_main DataMonitor_init
                  [''0.0,Sensor1,2'', ''0.0,Sensor1,2'' @ ''5.0,40.0\<newline>''])
           = [(Fin 0, 1, Fin 25, Fin 40)]"
    by simp
qed

theorem split_line_reassembled_witness:
  "carry DataMonitor_init = [] \<and> file_pos DataMonitor_init = 0 \<and>
   filter is_linebreak ''Sensor1,2'' = [] \<and>
   read_loop_main DataMonitor_init [''Sensor1,2'', ''Sensor1,2'' @ ''5.0,40.0\<newline>'']
     = read_loop_main DataMonitor_init [''Sensor1,2'' @ ''5.0,40.0\<newline>'']"
proof -
  have c: "carry DataMonitor_init = []" and p: "file_pos DataMonitor_init = 0"
    by (simp_all add: DataMonitor_init_def)
  have nb: "\<forall>c\<in>set ''Sensor1,2''. \<not> is_linebreak c"
    by (simp add: is_linebreak_def)
  have nb': "filter is_linebreak ''Sensor1,2'' = []"
    by (simp add: is_linebreak_def)
  from split_line_reassembled [OF c p nb, of "''5.0,40.0\<newline>''"] c p nb' show ?thesis
    by blast
qed

section \<open>Sources share the last-good values\<close>

lemma tail_chunk_one_line:
  assumes "ov_carry ov = []" and "splitlines chunk = [l]" and "endswith l [CHR 0x0A]"
  shows "tail_chunk self ov chunk =
           (case parse_log_line_abs_seconds self (strip l) of
              Inl e \<Rightarrow> (self, ov)
            | Inr (None, self') \<Rightarrow> (self', ov)
            | Inr (Some (t_abs, sid, temp, hum), self') \<Rightarrow>
                (self',
                 ov\<lparr>t_start_abs := Some (case t_start_abs ov of None \<Rightarrow> t_abs | Some a \<Rightarrow> a),
                    buffers := push (buffers ov)
                      (pf_sub t_abs (case t_start_abs ov of None \<Rightarrow> t_abs | Some a \<Rightarrow> a))
                      sid temp hum\<rparr>))"
proof -
  have same: "ov\<lparr>ov_carry := []\<rparr> = ov"
    using assms(1) by simp
  have "tail_chunk self ov chunk = tail_feed self (ov\<lparr>ov_carry := []\<rparr>) [l]"
    using assms by (simp add: tail_chunk_def pop_carry_def)
  then show ?thesis
    unfolding same by (simp add: Let_def split: sum.splits option.splits prod.splits)
qed

lemma line_25_decoded:
  "parse_log_line_abs_seconds self ''0.0,Sensor1,25.0,50.0''
     = Inr (validate self (Fin 0) 1 (Fin 25) (Fin 50))"
proof -
  have parts: "map strip (split (CHR '','') ''0.0,Sensor1,25.0,50.0'')
                 = [] @ [''0.0'', ''Sensor1'', ''25.0'', ''50.0'']"
    by code_simp
  have header: "\<not> contains ''0.0,Sensor1,25.0,50.0'' ''TS,Sensor,TempC,RH''"
    by code_simp
  have floats: "py_float ''0.0'' = Some (Fin 0)" "py_float ''25.0'' = Some (Fin 25)"
    "py_float ''50.0'' = Some (Fin 50)"
    by code_simp+
  have label: "startswith (lower ''Sensor1'') ''sensor''" and sid: "sensor_id ''Sensor1'' = 1"
    by code_simp+
  from parse_delimited [OF parts _ header floats label, of self] sid show ?thesis
    by simp
qed

lemma line_40_decoded:
  "parse_log_line_abs_seconds self ''0,Sensor1,40,50''
     = Inr (validate self (Fin 0) 1 (Fin 40) (Fin 50))"
proof -
  have parts: "map strip (split (CHR '','') ''0,Sensor1,40,50'')
                 = [] @ [''0'', ''Sensor1'', ''40'', ''50'']"
    by code_simp
  have header: "\<not> contains ''0,Sensor1,40,50'' ''TS,Sensor,TempC,RH''"
    by code_simp
  have floats: "py_float ''0'' = Some (Fin 0)" "py_float ''40'' = Some (Fin 40)"
    "py_float ''50'' = Some (Fin 50)"
    by code_simp+
  have label: "startswith (lower ''Sensor1'') ''sensor''" and sid: "sensor_id ''Sensor1'' = 1"
    by code_simp+
  from parse_delimited [OF parts _ header floats label, of self] sid show ?thesis
    by simp
qed

lemma ranges_25_40:
  "valid_ranges (Fin 25) (Fin 50)" "valid_ranges (Fin 40) (Fin 50)"
  by (simp_all add: valid_ranges_def TEMP_MIN_C_def TEMP_MAX_C_def HUM_MIN_PCT_def HUM_MAX_PCT_def)

text \<open>A line at 40 degrees is rejected while the last-good temperature of channel 1 is 25.\<close>

lemma validate_40_after_25:
  assumes "last_good_temp self 1 = Some (Fin 25)" and "last_good_hum self 1 = Some (Fin 50)"
  shows "validate self t 1 (Fin 40) (Fin 50) = (None, self)"
proof -
  have "\<not> valid_step self 1 (Fin 40) (Fin 50)"
    using assms by (simp add: valid_step_def MAX_TEMP_STEP_C_def)
  then show ?thesis
    by (simp add: validate_reject)
qed

lemma validate_first:
  assumes "last_good_temp self 1 = None" and "valid_ranges temp hum"
  shows "validate self t 1 temp hum =
           (Some (t, 1, temp, hum),
            self\<lparr>last_good_temp := (last_good_temp self)(1 := Some temp),
                 last_good_hum := (last_good_hum self)(1 := Some hum)\<rparr>)"
  using assms by (simp add: validate_accept valid_step_first)

text \<open>The main tailer reads one line at 25 degrees from a monitor that has just started.\<close>

lemma main_reads_25:
  "read_loop_main_step DataMonitor_init 0 ''0.0,Sensor1,25.0,50.0\<newline>'' =
     (DataMonitor_init\<lparr>file_pos := 22, queue := [(Fin 0, 1, Fin 25, Fin 50)],
                        last_good_temp := (\<lambda>sid. None)(1 := Some (Fin 25)),
                        last_good_hum := (\<lambda>sid. None)(1 := Some (Fin 50))\<rparr>, 22)"
proof -
  let ?file = "''0.0,Sensor1,25.0,50.0\<newline>''"
  let ?S = "DataMonitor_init\<lparr>file_pos := 22\<rparr>"
  have lines: "splitlines ?file = [?file]" and nl: "endswith ?file [CHR 0x0A]"
    and stripped: "strip ?file = ''0.0,Sensor1,25.0,50.0''"
    by code_simp+
  have c: "carry ?S = []" and fresh: "last_good_temp ?S 1 = None"
    by (simp_all add: DataMonitor_init_def)
  have "main_chunk ?S ?file =
          DataMonitor_init\<lparr>file_pos := 22, queue := [(Fin 0, 1, Fin 25, Fin 50)],
                        last_good_temp := (\<lambda>sid. None)(1 := Some (Fin 25)),
                        last_good_hum := (\<lambda>sid. None)(1 := Some (Fin 50))\<rparr>"
    unfolding main_chunk_one_line [OF c lines nl] stripped line_25_decoded
      validate_first [OF fresh ranges_25_40(1)]
    by (simp add: DataMonitor_init_def)
  moreover have len: "length ?file = 22"
    by simp
  have "read_loop_main_step DataMonitor_init 0 ?file = (main_chunk ?S ?file, 22)"
    unfolding read_loop_main_step_def Let_def len by (simp add: DataMonitor_init_def)
  ultimately show ?thesis
    by simp
qed

text \<open>The overlay tailer reads one line at 40 degrees.\<close>

lemma tail_reads_40:
  assumes "ov_carry ov = []" and "ov_file_pos ov = 0"
  shows "tail_step self ov 0 ''0,Sensor1,40,50\<newline>'' =
           ((case validate self (Fin 0) 1 (Fin 40) (Fin 50) of
               (None, self') \<Rightarrow> (self', ov\<lparr>ov_file_pos := 16\<rparr>)
             | (Some (t_abs, sid, temp, hum), self') \<Rightarrow>
                 (self',
                  ov\<lparr>ov_file_pos := 16,
                     t_start_abs := Some (case t_start_abs ov of None \<Rightarrow> t_abs | Some a \<Rightarrow> a),
                     buffers := push (buffers ov)
                       (pf_sub t_abs (case t_start_abs ov of None \<Rightarrow> t_abs | Some a \<Rightarrow> a))
                       sid temp hum\<rparr>)), 16)"
proof -
  let ?file = "''0,Sensor1,40,50\<newline>''"
  let ?ov = "ov\<lparr>ov_file_pos := 16\<rparr>"
  have lines: "splitlines ?file = [?file]" and nl: "endswith ?file [CHR 0x0A]"
    and stripped: "strip ?file = ''0,Sensor1,40,50''"
    by code_simp+
  have c: "ov_carry ?ov = []"
    using assms(1) by simp
  have len: "length ?file = 16"
    by simp
  have "tail_step self ov 0 ?file = (tail_chunk self ?ov ?file, 16)"
    unfolding tail_step_def Let_def len using assms(2) by simp
  then show ?thesis
    unfolding tail_chunk_one_line [OF c lines nl] stripped line_40_decoded
    by (simp split: prod.splits option.splits)
qed

text \<open>
  C2. The last-good values are fields of the monitor, and the tailer of every overlay
  calls the parser of that monitor, so all sources read and write the same values. When
  the primary source has accepted a line at 25 degrees for channel 1, the first line of
  an overlay, at 40 degrees for channel 1, is rejected by the step check and the
  buffer of the overlay stays empty. When the primary source has not processed
  anything, the same line of the overlay is accepted.
\<close>

theorem overlay_line_depends_on_primary:
  "T1 (buffers (snd (tail (read_loop_main DataMonitor_init [''0.0,Sensor1,25.0,50.0\<newline>''])
                       OverlayItem_init [''0,Sensor1,40,50\<newline>'']))) = [] \<and>
   T1 (buffers (snd (tail DataMonitor_init OverlayItem_init [''0,Sensor1,40,50\<newline>''])))
     = [Fin 40]"
proof
  let ?M = "DataMonitor_init\<lparr>file_pos := 22, queue := [(Fin 0, 1, Fin 25, Fin 50)],
                        last_good_temp := (\<lambda>sid. None)(1 := Some (Fin 25)),
                        last_good_hum := (\<lambda>sid. None)(1 := Some (Fin 50))\<rparr>"
  have ov: "ov_carry OverlayItem_init = []" "ov_file_pos OverlayItem_init = 0"
    by (simp_all add: OverlayItem_init_def)
  have main: "read_loop_main DataMonitor_init [''0.0,Sensor1,25.0,50.0\<newline>''] = ?M"
    by (simp add: read_loop_main_def main_reads_25)
  have "validate ?M (Fin 0) 1 (Fin 40) (Fin 50) = (None, ?M)"
    by (rule validate_40_after_25) simp_all
  then have "tail ?M OverlayItem_init [''0,Sensor1,40,50\<newline>'']
               = (?M, OverlayItem_init\<lparr>ov_file_pos := 16\<rparr>)"
    by (simp add: tail_def tail_reads_40 [OF ov])
  then show "T1 (buffers (snd (tail (read_loop_main DataMonitor_init [''0.0,Sensor1,25.0,50.0\<newline>''])
                       OverlayItem_init [''0,Sensor1,40,50\<newline>'']))) = []"
    unfolding main by (simp add: OverlayItem_init_def StreamBuffers_init_def)
  have fresh: "last_good_temp DataMonitor_init 1 = None"
    by (simp add: DataMonitor_init_def)
  have v: "validate DataMonitor_init (Fin 0) 1 (Fin 40) (Fin 50) =
           (Some (Fin 0, 1, Fin 40, Fin 50),
            DataMonitor_init\<lparr>last_good_temp := (last_good_temp DataMonitor_init)(1 := Some (Fin 40)),
                 last_good_hum := (last_good_hum DataMonitor_init)(1 := Some (Fin 50))\<rparr>)"
    using fresh ranges_25_40(2) by (rule validate_first)
  have "buffers (snd (tail DataMonitor_init OverlayItem_init [''0,Sensor1,40,50\<newline>'']))
          = push (buffers OverlayItem_init) (pf_sub (Fin 0) (Fin 0)) 1 (Fin 40) (Fin 50)"
    unfolding tail_def tail_passes.simps tail_reads_40 [OF ov] v
    by (simp add: OverlayItem_init_def)
  then show "T1 (buffers (snd (tail DataMonitor_init OverlayItem_init [''0,Sensor1,40,50\<newline>''])))
     = [Fin 40]"
    by (simp add: OverlayItem_init_def StreamBuffers_init_def push_def deque_append_def
          MAX_POINTS_def)
qed

section \<open>Truncation\<close>

text \<open>
  When the file is shorter than the stored offset or than its last size, the main tailer
  starts again from offset 0 with the carry, the anchor and the last-good values cleared;
  the tailer of an overlay starts again from offset 0 with its carry and its anchor
  cleared, and the monitor is not touched.
\<close>

lemma main_step_truncated:
  assumes "length file < file_pos self \<or> length file < last_size"
  shows "read_loop_main_step self last_size file =
           (if file \<noteq> [] then main_chunk (main_truncated self\<lparr>file_pos := length file\<rparr>) file
            else main_truncated self\<lparr>file_pos := length file\<rparr>, length file)"
  using assms by (auto simp: read_loop_main_step_def Let_def main_truncated_def)

lemma main_truncated_clears:
  "file_pos (main_truncated self) = 0" "carry (main_truncated self) = []"
  "last_good_temp (main_truncated self) sid = None" "last_good_hum (main_truncated self) sid = None"
  "main_t_start_abs (main_truncated self) = None"
  by (simp_all add: main_truncated_def)

lemma tail_step_truncated:
  assumes "length file < ov_file_pos ov \<or> length file < last_size"
  shows "tail_step self ov last_size file =
           (if file \<noteq> [] then tail_chunk self (tail_truncated ov\<lparr>ov_file_pos := length file\<rparr>) file
            else (self, tail_truncated ov\<lparr>ov_file_pos := length file\<rparr>), length file)"
  using assms by (auto simp: tail_step_def Let_def tail_truncated_def)

lemma tail_reads_25:
  "tail_step DataMonitor_init OverlayItem_init 0 ''0.0,Sensor1,25.0,50.0\<newline>'' =
     ((DataMonitor_init\<lparr>last_good_temp := (\<lambda>sid. None)(1 := Some (Fin 25)),
                         last_good_hum := (\<lambda>sid. None)(1 := Some (Fin 50))\<rparr>,
       OverlayItem_init\<lparr>ov_file_pos := 22, t_start_abs := Some (Fin 0),
                         buffers := push (StreamBuffers_init MAX_POINTS) (Fin 0) 1 (Fin 25) (Fin 50)\<rparr>),
      22)"
proof -
  let ?file = "''0.0,Sensor1,25.0,50.0\<newline>''"
  let ?ov = "OverlayItem_init\<lparr>ov_file_pos := 22\<rparr>"
  have lines: "splitlines ?file = [?file]" and nl: "endswith ?file [CHR 0x0A]"
    and stripped: "strip ?file = ''0.0,Sensor1,25.0,50.0''"
    by code_simp+
  have len: "length ?file = 22"
    by simp
  have c: "ov_carry ?ov = []" and fresh: "last_good_temp DataMonitor_init 1 = None"
    by (simp_all add: OverlayItem_init_def DataMonitor_init_def)
  have "tail_step DataMonitor_init OverlayItem_init 0 ?file
          = (tail_chunk DataMonitor_init ?ov ?file, 22)"
    unfolding tail_step_def Let_def len by (simp add: OverlayItem_init_def)
  then show ?thesis
    unfolding tail_chunk_one_line [OF c lines nl] stripped line_25_decoded
      validate_first [OF fresh ranges_25_40(1)]
    by (simp add: OverlayItem_init_def DataMonitor_init_def)
qed

lemma tail_truncated_reads_40:
  assumes "16 < ov_file_pos ov \<or> 16 < last_size"
    and "last_good_temp self 1 = Some (Fin 25)" and "last_good_hum self 1 = Some (Fin 50)"
  shows "tail_step self ov last_size ''0,Sensor1,40,50\<newline>'' =
           ((self, ov\<lparr>ov_file_pos := 16, ov_carry := [], t_start_abs := None\<rparr>), 16)"
proof -
  let ?file = "''0,Sensor1,40,50\<newline>''"
  let ?ov = "tail_truncated ov\<lparr>ov_file_pos := length ?file\<rparr>"
  have lines: "splitlines ?file = [?file]" and nl: "endswith ?file [CHR 0x0A]"
    and stripped: "strip ?file = ''0,Sensor1,40,50''"
    by code_simp+
  have len: "length ?file = 16"
    by simp
  have c: "ov_carry ?ov = []"
    by (simp add: tail_truncated_def)
  have "length ?file < ov_file_pos ov \<or> length ?file < last_size"
    unfolding len using assms(1) .
  then have "tail_step self ov last_size ?file = (tail_chunk self ?ov ?file, length ?file)"
    by (simp add: tail_step_truncated)
  also have "tail_chunk self ?ov ?file = (self, ?ov)"
    unfolding tail_chunk_one_line [OF c lines nl] stripped line_40_decoded
      validate_40_after_25 [OF assms(2,3)]
    by simp
  finally show ?thesis
    unfolding len by (simp add: tail_truncated_def)
qed

lemma main_truncated_reads_40:
  assumes "16 < file_pos self \<or> 16 < last_size"
  shows "queue (fst (read_loop_main_step self last_size ''0,Sensor1,40,50\<newline>''))
           = queue self @ [(Fin 0, 1, Fin 40, Fin 50)]"
proof -
  let ?file = "''0,Sensor1,40,50\<newline>''"
  let ?S = "main_truncated self\<lparr>file_pos := length ?file\<rparr>"
  have lines: "splitlines ?file = [?file]" and nl: "endswith ?file [CHR 0x0A]"
    and stripped: "strip ?file = ''0,Sensor1,40,50''"
    by code_simp+
  have len: "length ?file = 16"
    by simp
  have c: "carry ?S = []" and fresh: "last_good_temp ?S 1 = None"
    by (simp_all add: main_truncated_def)
  have "length ?file < file_pos self \<or> length ?file < last_size"
    unfolding len using assms(1) .
  then have "read_loop_main_step self last_size ?file = (main_chunk ?S ?file, length ?file)"
    by (simp add: main_step_truncated)
  moreover have "queue (main_chunk ?S ?file) = queue ?S @ [(Fin 0, 1, Fin 40, Fin 50)]"
    unfolding main_chunk_one_line [OF c lines nl] stripped line_40_decoded
      validate_first [OF fresh ranges_25_40(2)]
    by simp
  ultimately show ?thesis
    by (simp add: main_truncated_def)
qed

text \<open>
  C4. An overlay file holds one line at 25 degrees for channel 1, which the tailer of the
  overlay accepts; then the file is replaced by a shorter one with one line at 40
  degrees. The tailer sees the truncation and resets its offset, its carry and its anchor,
  but the last-good values of channel 1 are still 25 and 50 instead of being cleared, so
  the first line of the new file is rejected by the step check and the buffer of the
  overlay still holds only the old sample. The main tailer on the same two files clears
  the last-good values and accepts both lines.
\<close>

theorem overlay_truncation_keeps_last_good:
  "last_good_temp (fst (tail DataMonitor_init OverlayItem_init
      [''0.0,Sensor1,25.0,50.0\<newline>'', ''0,Sensor1,40,50\<newline>''])) 1 = Some (Fin 25) \<and>
   last_good_hum (fst (tail DataMonitor_init OverlayItem_init
      [''0.0,Sensor1,25.0,50.0\<newline>'', ''0,Sensor1,40,50\<newline>''])) 1 = Some (Fin 50) \<and>
   ov_file_pos (snd (tail DataMonitor_init OverlayItem_init
      [''0.0,Sensor1,25.0,50.0\<newline>'', ''0,Sensor1,40,50\<newline>''])) = 16 \<and>
   t_start_abs (snd (tail DataMonitor_init OverlayItem_init
      [''0.0,Sensor1,25.0,50.0\<newline>'', ''0,Sensor1,40,50\<newline>''])) = None \<and>
   T1 (buffers (snd (tail DataMonitor_init OverlayItem_init
      [''0.0,Sensor1,25.0,50.0\<newline>'', ''0,Sensor1,40,50\<newline>'']))) = [Fin 25] \<and>
   queue (read_loop_main DataMonitor_init
      [''0.0,Sensor1,25.0,50.0\<newline>'', ''0,Sensor1,40,50\<newline>''])
     = [(Fin 0, 1, Fin 25, Fin 50), (Fin 0, 1, Fin 40, Fin 50)]"
proof -
  let ?M = "DataMonitor_init\<lparr>last_good_temp := (\<lambda>sid. None)(1 := Some (Fin 25)),
                         last_good_hum := (\<lambda>sid. None)(1 := Some (Fin 50))\<rparr>"
  let ?O = "OverlayItem_init\<lparr>ov_file_pos := 22, t_start_abs := Some (Fin 0),
                         buffers := push (StreamBuffers_init MAX_POINTS) (Fin 0) 1 (Fin 25) (Fin 50)\<rparr>"
  have "tail_step ?M ?O 22 ''0,Sensor1,40,50\<newline>''
          = ((?M, ?O\<lparr>ov_file_pos := 16, ov_carry := [], t_start_abs := None\<rparr>), 16)"
    by (rule tail_truncated_reads_40) simp_all
  then have overlay: "tail DataMonitor_init OverlayItem_init
      [''0.0,Sensor1,25.0,50.0\<newline>'', ''0,Sensor1,40,50\<newline>'']
        = (?M, ?O\<lparr>ov_file_pos := 16, ov_carry := [], t_start_abs := None\<rparr>)"
    by (simp add: tail_def tail_reads_25)
  let ?P = "DataMonitor_init\<lparr>file_pos := 22, queue := [(Fin 0, 1, Fin 25, Fin 50)],
                        last_good_temp := (\<lambda>sid. None)(1 := Some (Fin 25)),
                        last_good_hum := (\<lambda>sid. None)(1 := Some (Fin 50))\<rparr>"
  have "queue (fst (read_loop_main_step ?P 22 ''0,Sensor1,40,50\<newline>''))
          = queue ?P @ [(Fin 0, 1, Fin 40, Fin 50)]"
    by (rule main_truncated_reads_40) simp
  then have primary: "queue (read_loop_main DataMonitor_init
      [''0.0,Sensor1,25.0,50.0\<newline>'', ''0,Sensor1,40,50\<newline>''])
     = [(Fin 0, 1, Fin 25, Fin 50), (Fin 0, 1, Fin 40, Fin 50)]"
    by (auto simp: read_loop_main_def main_reads_25 split: prod.splits)
  show ?thesis
    unfolding overlay primary
    by (simp add: StreamBuffers_init_def push_def deque_append_def MAX_POINTS_def)
qed

end
